theory Spec2Isabelle
  imports Main "HOL-Library.Sublist"
begin

section \<open>Streaming reader (web/app/api.js, streamMessage)\<close>

text \<open>
  JavaScript strings are modelled as \<open>string\<close>; \<open>String.prototype.split\<close> with a
  separator string scans from the left and cuts at every non-overlapping occurrence of
  the separator. The result is never empty for a non-empty separator
  (\<open>"".split(sep)\<close> is \<open>[""]\<close>); with the empty separator the string is cut
  into its characters.
\<close>

function js_split :: "'a list \<Rightarrow> 'a list \<Rightarrow> 'a list list" where
  "js_split sep s =
     (if sep = [] then map (\<lambda>c. [c]) s
      else if s = [] then [[]]
      else if prefix sep s then [] # js_split sep (drop (length sep) s)
      else (case js_split sep (tl s) of
              [] \<Rightarrow> [[hd s]]
            | p # ps \<Rightarrow> (hd s # p) # ps))"
  by pat_completeness auto
termination
  by (relation "measure (\<lambda>(sep, s). length s)") auto

declare js_split.simps [simp del]

definition blank_line :: string where
  "blank_line = [CHR ''\<newline>'', CHR ''\<newline>'']"

definition newline :: string where
  "newline = [CHR ''\<newline>'']"

text \<open>
  What a rejected promise or a \<open>throw\<close> carries. \<open>HttpError\<close> stands for an error
  made from a response status, \<open>AbortError\<close> for the rejection of an aborted request.
\<close>

datatype exn = HttpError nat | NetworkError | TypeError | AbortError

text \<open>The three callbacks of a stream; a list of these records the invocations in order.\<close>

datatype callback = OnChunk string | OnEnd | OnError exn

text \<open>
  The callbacks are the caller's code and run inside the promise chain. A handler works
  on the caller's state; it may \<open>throw\<close> (the first component), and it may call the
  \<open>abort\<close> of the handle it was given (the second). A callback that was not passed
  (\<open>onChunk?.(data)\<close>) is a handler that does nothing.
\<close>

type_synonym 'c handler = "'c \<Rightarrow> exn option \<times> bool \<times> 'c"

record 'c callbacks =
  onChunk_cb :: "string \<Rightarrow> 'c handler"
  onEnd_cb :: "'c handler"
  onError_cb :: "exn \<Rightarrow> 'c handler"

text \<open>
  The promise chain of \<open>streamMessage\<close> is suspended either at \<open>fetch\<close> or at
  \<open>reader.read()\<close> (holding \<open>buf\<close>), or it has settled. With it go the state of
  \<open>ctrl.signal\<close>, the caller's state, and the callbacks invoked so far.
\<close>

datatype phase = AwaitFetch | AwaitRead string | Settled

record 'c chain =
  phase :: phase
  aborted :: bool
  client :: 'c
  trace :: "callback list"

definition invoke :: "callback \<Rightarrow> 'c handler \<Rightarrow> 'c chain \<Rightarrow> exn option \<times> 'c chain" where
  "invoke label h st =
     (case h (client st) of
        (thrown, ab, c) \<Rightarrow>
          (thrown, st\<lparr>aborted := aborted st \<or> ab, client := c, trace := trace st @ [label]\<rparr>))"

text \<open>
  The \<open>for (const part of parts)\<close> loop of one read. A part with no line starting with
  \<open>data: \<close> is skipped; the payload \<open>[DONE]\<close> calls \<open>onEnd\<close> and returns from the
  whole reader; any other payload is passed to \<open>onChunk\<close>. A callback that throws ends
  the loop with its exception. The loop never looks at the signal.
\<close>

datatype loop_exit = Completed | Returned | Threw exn

fun emit_parts :: "'c callbacks \<Rightarrow> string list \<Rightarrow> 'c chain \<Rightarrow> loop_exit \<times> 'c chain" where
  "emit_parts cbs [] st = (Completed, st)"
| "emit_parts cbs (part # parts) st =
     (case find (prefix ''data: '') (js_split newline part) of
        None \<Rightarrow> emit_parts cbs parts st
      | Some dataLine \<Rightarrow>
          (let data = drop 6 dataLine in
           if data = ''[DONE]'' then
             (case invoke OnEnd (onEnd_cb cbs) st of
                (None, st') \<Rightarrow> (Returned, st')
              | (Some e, st') \<Rightarrow> (Threw e, st'))
           else
             (case invoke (OnChunk data) (onChunk_cb cbs data) st of
                (None, st') \<Rightarrow> emit_parts cbs parts st'
              | (Some e, st') \<Rightarrow> (Threw e, st'))))"

text \<open>
  \<open>.catch((e) => onError?.(e))\<close>: every rejection and every \<open>throw\<close> inside the chain
  ends in one call of \<open>onError\<close>; what \<open>onError\<close> itself throws is handled by nobody.
\<close>

definition catch_handler :: "'c callbacks \<Rightarrow> exn \<Rightarrow> 'c chain \<Rightarrow> 'c chain" where
  "catch_handler cbs e st = (snd (invoke (OnError e) (onError_cb cbs e) st))\<lparr>phase := Settled\<rparr>"

text \<open>
  What the platform hands to the suspended chain: the response of \<open>fetch\<close> (with
  \<open>res.ok\<close>, \<open>res.status\<close>, and whether \<open>res.body\<close> is there: \<open>res.body.getReader()\<close>
  throws a \<open>TypeError\<close> on \<open>null\<close>) or its rejection, the outcome of a
  \<open>reader.read()\<close> (the decoded text of a chunk, the end of the body, a rejection), and
  a call of the handle's \<open>abort\<close> from outside the chain.
\<close>

record response =
  r_ok :: bool
  r_status :: nat
  r_has_body :: bool

datatype event =
    Fetched response
  | FetchFailed exn
  | ReadValue string
  | ReadDone
  | ReadFailed exn
  | AbortCall

fun resume :: "'c callbacks \<Rightarrow> phase \<Rightarrow> event \<Rightarrow> 'c chain \<Rightarrow> 'c chain" where
  "resume cbs AwaitFetch (Fetched res) st =
     (if \<not> r_ok res then catch_handler cbs (HttpError (r_status res)) st
      else if \<not> r_has_body res then catch_handler cbs TypeError st
      else st\<lparr>phase := AwaitRead []\<rparr>)"
| "resume cbs AwaitFetch (FetchFailed e) st = catch_handler cbs e st"
| "resume cbs (AwaitRead buf) (ReadValue v) st =
     (let parts = js_split blank_line (buf @ v) in
      case emit_parts cbs (butlast parts) st of
        (Completed, st') \<Rightarrow> st'\<lparr>phase := AwaitRead (last parts)\<rparr>
      | (Returned, st') \<Rightarrow> st'\<lparr>phase := Settled\<rparr>
      | (Threw e, st') \<Rightarrow> catch_handler cbs e st')"
| "resume cbs (AwaitRead buf) ReadDone st =
     (case invoke OnEnd (onEnd_cb cbs) st of
        (None, st') \<Rightarrow> st'\<lparr>phase := Settled\<rparr>
      | (Some e, st') \<Rightarrow> catch_handler cbs e st')"
| "resume cbs (AwaitRead buf) (ReadFailed e) st = catch_handler cbs e st"
| "resume cbs ph ev st = st"

text \<open>
  The handle returned by \<open>streamMessage\<close> is \<open>{ abort: () => ctrl.abort() }\<close>, and
  \<open>ctrl.signal\<close> is the signal handed to \<open>fetch\<close> (api.js, line 97). The code keeps no
  flag of its own and tests the signal nowhere; the only effect of \<open>abort\<close> is the one
  the platform gives a request with that signal: the pending \<open>fetch\<close>, or the pending
  or next \<open>reader.read()\<close> of its body, is rejected with an \<open>AbortError\<close>. The
  rejection reaches the chain when it is suspended, so after \<open>abort\<close> has returned and,
  for an \<open>abort\<close> called inside a callback, after the loop over the parts in hand.
\<close>

definition after_abort :: "'c callbacks \<Rightarrow> 'c chain \<Rightarrow> 'c chain" where
  "after_abort cbs st =
     (if aborted st \<and> phase st \<noteq> Settled then catch_handler cbs AbortError st else st)"

definition step :: "'c callbacks \<Rightarrow> event \<Rightarrow> 'c chain \<Rightarrow> 'c chain" where
  "step cbs ev st =
     after_abort cbs
       (case ev of
          AbortCall \<Rightarrow> st\<lparr>aborted := True\<rparr>
        | _ \<Rightarrow> resume cbs (phase st) ev st)"

fun run :: "'c callbacks \<Rightarrow> event list \<Rightarrow> 'c chain \<Rightarrow> 'c chain" where
  "run cbs [] st = st"
| "run cbs (e # es) st = run cbs es (step cbs e st)"

text \<open>
  \<open>streamMessage\<close> starts the chain at \<open>fetch\<close> with a fresh controller; what it invokes
  is decided by what the platform delivers and by the callbacks. The request itself (URL,
  headers) plays no part here.
\<close>

definition start :: "'c \<Rightarrow> 'c chain" where
  "start c = \<lparr>phase = AwaitFetch, aborted = False, client = c, trace = []\<rparr>"

definition streamMessage :: "'c callbacks \<Rightarrow> 'c \<Rightarrow> event list \<Rightarrow> 'c chain" where
  "streamMessage cbs c evs = run cbs evs (start c)"

text \<open>Callbacks that return normally and leave the handle alone.\<close>

definition quiet :: "'c callbacks \<Rightarrow> bool" where
  "quiet cbs =
     ((\<forall>tok c. fst (onChunk_cb cbs tok c) = None \<and> \<not> fst (snd (onChunk_cb cbs tok c)))
      \<and> (\<forall>c. fst (onEnd_cb cbs c) = None \<and> \<not> fst (snd (onEnd_cb cbs c))))"

text \<open>
  What the whole stream text is expected to produce, in the words of the design: the
  complete frames are the parts in front of a blank line (the last part is the partial
  frame), the payload of a frame is the text after \<open>data: \<close> on its first line that
  starts so, and the payloads before the sentinel are the tokens.
\<close>

definition frames_of :: "string \<Rightarrow> string list" where
  "frames_of text = butlast (js_split blank_line text)"

definition rest_of :: "string \<Rightarrow> string" where
  "rest_of text = last (js_split blank_line text)"

definition payload :: "string \<Rightarrow> string option" where
  "payload frame = map_option (drop 6) (find (prefix ''data: '') (js_split newline frame))"

definition payloads :: "string \<Rightarrow> string list" where
  "payloads text = List.map_filter payload (frames_of text)"

definition expected_callbacks :: "string \<Rightarrow> callback list" where
  "expected_callbacks text =
     map OnChunk (takeWhile (\<lambda>p. p \<noteq> ''[DONE]'') (payloads text)) @ [OnEnd]"

definition data_frame :: "string \<Rightarrow> string" where
  "data_frame p = ''data: '' @ p @ blank_line"

section \<open>Transport: the response interceptors (web/app/api.js, web/app/api/http.js)\<close>

text \<open>
  The browser state the interceptors touch: the \<open>token\<close> entry of \<open>localStorage\<close>
  and \<open>location.hash\<close>. An axios error carries the status of its response, when it has
  one (\<open>err?.response?.status\<close>). Both interceptors end in \<open>Promise.reject(err)\<close>.
\<close>

record browser =
  local_token :: "string option"
  location_hash :: string

record http_error =
  response_status :: "nat option"

definition api_response_rejected :: "http_error \<Rightarrow> browser \<Rightarrow> (http_error + unit) \<times> browser" where
  "api_response_rejected err b =
     (Inl err,
      if response_status err = Some 401
      then b\<lparr>local_token := None, location_hash := ''#/login''\<rparr>
      else b)"

definition http_response_rejected :: "http_error \<Rightarrow> browser \<Rightarrow> (http_error + unit) \<times> browser" where
  "http_response_rejected err b =
     (Inl err,
      if response_status err = Some 401
      then b\<lparr>location_hash := ''#/login''\<rparr>
      else b)"

section \<open>The store (web/app/store.js)\<close>

subsection \<open>Quota constants (QUOTA in web/app/api.js)\<close>

definition MAX_SESSIONS :: nat where
  "MAX_SESSIONS = 100"

definition MAX_MSG_PER_SESSION :: nat where
  "MAX_MSG_PER_SESSION = 1000"

definition MAX_INPUT_CHARS :: nat where
  "MAX_INPUT_CHARS = 4000"

subsection \<open>Data\<close>

text \<open>
  A session as the backend returns it; the store reads \<open>id\<close>, \<open>model_alias\<close>,
  \<open>use_rag\<close>, \<open>rag_corpus_ids\<close> (which may be missing) and \<open>meta.stream\<close> (which
  may be missing, with or without \<open>meta\<close>). Identifiers are strings; the empty string is
  the falsy value that stands for "no active session".
\<close>

record session =
  s_id :: string
  model_alias :: string
  use_rag :: bool
  rag_corpus_ids :: "string list option"
  meta_stream :: "bool option"

datatype role = User | Assistant

record message =
  m_id :: nat
  session_id :: string
  role :: role
  message_type :: string
  content_text :: string
  created_at :: nat

record model =
  m_alias :: string

datatype handle = StreamHandle string string

record store =
  token :: string
  models :: "model list"
  modelAlias :: string
  useRag :: bool
  useStream :: bool
  ragCorpusIds :: "string list"
  sessions :: "session list"
  activeSessionId :: string
  messages :: "string \<rightharpoonup> message list"
  streaming :: bool
  streamer :: "handle option"

text \<open>The argument of \<open>ensureActiveSession\<close>: every field may be left out.\<close>

record desired =
  d_modelAlias :: "string option"
  d_useRag :: "bool option"
  d_ragCorpusIds :: "string list option"
  d_useStream :: "bool option"

subsection \<open>Backend calls and other effects\<close>

record create_body =
  cb_model_alias :: string
  cb_use_rag :: bool
  cb_rag_corpus_ids :: "string list"
  cb_meta_stream :: bool

record patch_body =
  pb_model_alias :: "string option"
  pb_use_rag :: "bool option"
  pb_rag_corpus_ids :: "string list option"
  pb_meta_stream :: "bool option"

text \<open>
  The \<open>api\<close> object as far as the store uses it: each call either resolves with the
  response data or rejects. A store operation is modelled run to its end, with no other
  store operation interleaved at its \<open>await\<close>s.
\<close>

record api =
  api_createSession :: "create_body \<Rightarrow> exn + session"
  api_patchSession :: "string \<Rightarrow> patch_body \<Rightarrow> exn + session"
  api_deleteSession :: "string \<Rightarrow> exn + unit"
  api_listMessages :: "string \<Rightarrow> nat \<Rightarrow> nat \<Rightarrow> exn + message list"
  api_sendMessage :: "string \<Rightarrow> string \<Rightarrow> exn + message"

datatype request =
    CreateSession create_body
  | PatchSession string patch_body
  | DeleteSession string
  | ListMessages string nat nat
  | SendMessage string string
  | StreamMessage string string

datatype alert =
    SessionLimit nat
  | NoModel
  | InputLimit nat
  | MessageLimit
  | SendFailed

datatype effect =
    Alert alert
  | Call request
  | ConsoleError
  | AbortStream handle

text \<open>
  The result of an operation: how its promise settles (\<open>Inl\<close>: rejected), what it did
  to the outside in order, and the store afterwards.
\<close>

type_synonym outcome = "(exn + unit) \<times> effect list \<times> store"

subsection \<open>Helpers\<close>

fun findIndex :: "('a \<Rightarrow> bool) \<Rightarrow> 'a list \<Rightarrow> nat option" where
  "findIndex P [] = None"
| "findIndex P (x # xs) = (if P x then Some 0 else map_option Suc (findIndex P xs))"

text \<open>
  \<open>String.prototype.trim\<close> removes white space and line terminators from both ends; of
  these the characters below are the ones an 8-bit \<open>char\<close> can hold.
\<close>

definition is_ws :: "char \<Rightarrow> bool" where
  "is_ws c = (c \<in> set [CHR 0x09, CHR 0x0A, CHR 0x0B, CHR 0x0C, CHR 0x0D, CHR 0x20, CHR 0xA0])"

definition js_trim :: "string \<Rightarrow> string" where
  "js_trim s = rev (dropWhile is_ws (rev (dropWhile is_ws s)))"

definition sessionById :: "store \<Rightarrow> string \<Rightarrow> session option" where
  "sessionById st i = find (\<lambda>s. s_id s = i) (sessions st)"

definition setMessages :: "string \<Rightarrow> message list option \<Rightarrow> store \<Rightarrow> store" where
  "setMessages sessionId list st =
     st\<lparr>messages := (messages st)(sessionId \<mapsto> (case list of None \<Rightarrow> [] | Some l \<Rightarrow> l))\<rparr>"

definition message_count :: "store \<Rightarrow> string \<Rightarrow> nat" where
  "message_count st sid = (case messages st sid of None \<Rightarrow> 0 | Some l \<Rightarrow> length l)"

text \<open>Writing a session's configuration into the store's snapshot.\<close>

definition sync_config :: "session \<Rightarrow> store \<Rightarrow> store" where
  "sync_config s st =
     st\<lparr>modelAlias := model_alias s,
        useRag := use_rag s,
        ragCorpusIds := (case rag_corpus_ids s of None \<Rightarrow> [] | Some l \<Rightarrow> l),
        useStream := (case meta_stream s of None \<Rightarrow> useStream st | Some b \<Rightarrow> b)\<rparr>"

subsection \<open>Creating, patching, reconciling\<close>

definition create_alias :: "desired \<Rightarrow> store \<Rightarrow> string" where
  "create_alias d st =
     (let fallback = (if modelAlias st \<noteq> [] then modelAlias st
                      else (case models st of [] \<Rightarrow> [] | m # _ \<Rightarrow> m_alias m))
      in case d_modelAlias d of
           None \<Rightarrow> fallback
         | Some a \<Rightarrow> if a \<noteq> [] then a else fallback)"

definition create_request :: "desired \<Rightarrow> store \<Rightarrow> create_body" where
  "create_request d st =
     \<lparr>cb_model_alias = create_alias d st,
      cb_use_rag = (case d_useRag d of None \<Rightarrow> False | Some b \<Rightarrow> b),
      cb_rag_corpus_ids = (case d_ragCorpusIds d of None \<Rightarrow> [] | Some l \<Rightarrow> l),
      cb_meta_stream = (case d_useStream d of None \<Rightarrow> useStream st | Some b \<Rightarrow> b)\<rparr>"

definition createAndActivate :: "api \<Rightarrow> desired \<Rightarrow> store \<Rightarrow> outcome" where
  "createAndActivate be d st =
     (if length (sessions st) \<ge> MAX_SESSIONS then (Inr (), [Alert (SessionLimit MAX_SESSIONS)], st)
      else if create_alias d st = [] then (Inr (), [Alert NoModel], st)
      else
        let body = create_request d st in
        case api_createSession be body of
          Inl e \<Rightarrow> (Inl e, [Call (CreateSession body)], st)
        | Inr s \<Rightarrow>
            (Inr (), [Call (CreateSession body)],
             setMessages (s_id s) (Some [])
               (sync_config s (st\<lparr>sessions := s # sessions st, activeSessionId := s_id s\<rparr>))))"

definition patch_request :: "desired \<Rightarrow> patch_body" where
  "patch_request d =
     \<lparr>pb_model_alias = d_modelAlias d,
      pb_use_rag = d_useRag d,
      pb_rag_corpus_ids = d_ragCorpusIds d,
      pb_meta_stream = d_useStream d\<rparr>"

text \<open>The configuration the \<open>catch\<close> block of \<open>_tryPatchConfig\<close> hands to the creation.\<close>

definition fallback_desired :: "desired \<Rightarrow> store \<Rightarrow> desired" where
  "fallback_desired d st =
     \<lparr>d_modelAlias = Some (case d_modelAlias d of None \<Rightarrow> modelAlias st | Some a \<Rightarrow> a),
      d_useRag = Some (case d_useRag d of None \<Rightarrow> useRag st | Some b \<Rightarrow> b),
      d_ragCorpusIds = Some (case d_ragCorpusIds d of None \<Rightarrow> ragCorpusIds st | Some l \<Rightarrow> l),
      d_useStream = Some (case d_useStream d of None \<Rightarrow> useStream st | Some b \<Rightarrow> b)\<rparr>"

definition tryPatchConfig :: "api \<Rightarrow> string \<Rightarrow> desired \<Rightarrow> store \<Rightarrow> outcome" where
  "tryPatchConfig be sessionId d st =
     (let body = patch_request d in
      case api_patchSession be sessionId body of
        Inr updated \<Rightarrow>
          (Inr (), [Call (PatchSession sessionId body)],
           sync_config updated
             (st\<lparr>sessions :=
                  (case findIndex (\<lambda>s. s_id s = sessionId) (sessions st) of
                     None \<Rightarrow> sessions st
                   | Some idx \<Rightarrow> (sessions st)[idx := updated])\<rparr>))
      | Inl e \<Rightarrow>
          (case createAndActivate be (fallback_desired d st) st of
             (r, effs, st') \<Rightarrow> (r, Call (PatchSession sessionId body) # effs, st')))"

definition ensureActiveSession :: "api \<Rightarrow> desired \<Rightarrow> store \<Rightarrow> outcome" where
  "ensureActiveSession be d st =
     (case sessions st of
        [] \<Rightarrow> createAndActivate be d st
      | s0 # _ \<Rightarrow>
          let st1 = (if activeSessionId st = [] then st\<lparr>activeSessionId := s_id s0\<rparr> else st);
              sid = activeSessionId st1;
              hasMsg = (message_count st1 sid > 0)
          in if \<not> hasMsg then tryPatchConfig be sid d st1
             else createAndActivate be d st1)"

subsection \<open>Switching and deleting\<close>

definition switchSession :: "api \<Rightarrow> string \<Rightarrow> store \<Rightarrow> outcome" where
  "switchSession be sessionId st =
     (if sessionId = activeSessionId st then (Inr (), [], st)
      else
        let st1 = st\<lparr>activeSessionId := sessionId\<rparr>;
            st2 = (case api_listMessages be sessionId 500 0 of
                     Inr msgs \<Rightarrow> setMessages sessionId (Some msgs) st1
                   | Inl e \<Rightarrow> setMessages sessionId (messages st1 sessionId) st1);
            st3 = (case sessionById st2 sessionId of
                     None \<Rightarrow> st2
                   | Some s \<Rightarrow> sync_config s st2)
        in (Inr (), [Call (ListMessages sessionId 500 0)], st3))"

text \<open>The statements after the \<open>try\<close> of \<open>deleteSession\<close>.\<close>

definition deleteSession_local :: "api \<Rightarrow> string \<Rightarrow> store \<Rightarrow> outcome" where
  "deleteSession_local be sessionId st =
     (let st1 = st\<lparr>sessions := filter (\<lambda>s. s_id s \<noteq> sessionId) (sessions st),
                   messages := (messages st)(sessionId := None)\<rparr>
      in if activeSessionId st1 = sessionId then
           let st2 = st1\<lparr>activeSessionId := (case sessions st1 of [] \<Rightarrow> [] | s # _ \<Rightarrow> s_id s)\<rparr>
           in if activeSessionId st2 \<noteq> [] then
                (case switchSession be (activeSessionId st2) st2 of
                   (r, effs, st') \<Rightarrow> (r, Call (DeleteSession sessionId) # effs, st'))
              else (Inr (), [Call (DeleteSession sessionId)], st2)
         else (Inr (), [Call (DeleteSession sessionId)], st1))"

subsection \<open>Sending\<close>

text \<open>
  \<open>now k\<close> is the \<open>k\<close>-th reading of \<open>Date.now()\<close> during the call. In the streaming
  branch \<open>send\<close> returns as soon as the stream is opened; its three callbacks are the
  closures below, with the captured \<open>acc\<close> passed along with the store. A callback that
  reads \<open>this.messages[sid]\<close> after the entry was deleted throws a \<open>TypeError\<close>.
\<close>

definition messages_or_empty :: "store \<Rightarrow> string \<Rightarrow> message list" where
  "messages_or_empty st sid = (case messages st sid of None \<Rightarrow> [] | Some l \<Rightarrow> l)"

definition userMsg :: "(nat \<Rightarrow> nat) \<Rightarrow> string \<Rightarrow> string \<Rightarrow> message" where
  "userMsg now sid input =
     \<lparr>m_id = now 0, session_id = sid, role = User, message_type = ''text'',
      content_text = input, created_at = now 1 div 1000\<rparr>"

definition aiMsg :: "(nat \<Rightarrow> nat) \<Rightarrow> string \<Rightarrow> message" where
  "aiMsg now sid =
     \<lparr>m_id = now 2 + 1, session_id = sid, role = Assistant, message_type = ''text'',
      content_text = [], created_at = now 3 div 1000\<rparr>"

definition send :: "api \<Rightarrow> (nat \<Rightarrow> nat) \<Rightarrow> string \<Rightarrow> store \<Rightarrow> outcome" where
  "send be now input st =
     (if input = [] \<or> js_trim input = [] then (Inr (), [], st)
      else if length input > MAX_INPUT_CHARS then (Inr (), [Alert (InputLimit MAX_INPUT_CHARS)], st)
      else
        let sid = activeSessionId st in
        if message_count st sid \<ge> MAX_MSG_PER_SESSION then (Inr (), [Alert MessageLimit], st)
        else
          let st1 = st\<lparr>messages := (messages st)
                       (sid \<mapsto> messages_or_empty st sid @ [userMsg now sid input])\<rparr>
          in if \<not> useStream st1 then
               (case api_sendMessage be sid input of
                  Inr ans \<Rightarrow>
                    (Inr (), [Call (SendMessage sid input)],
                     st1\<lparr>messages := (messages st1)(sid \<mapsto> messages_or_empty st1 sid @ [ans])\<rparr>)
                | Inl e \<Rightarrow>
                    (Inr (), [Call (SendMessage sid input), Alert SendFailed, ConsoleError], st1))
             else
               let st2 = st1\<lparr>streaming := True\<rparr>;
                   st3 = st2\<lparr>messages := (messages st2)
                              (sid \<mapsto> messages_or_empty st2 sid @ [aiMsg now sid])\<rparr>
               in (Inr (), [Call (StreamMessage sid input)],
                   st3\<lparr>streamer := Some (StreamHandle sid input)\<rparr>))"

definition onChunk :: "string \<Rightarrow> nat \<Rightarrow> string \<Rightarrow> string \<times> store \<Rightarrow> (exn + unit) \<times> string \<times> store" where
  "onChunk sid aiMsgId tok = (\<lambda>(acc, st).
     let acc' = acc @ tok in
     case messages st sid of
       None \<Rightarrow> (Inl TypeError, acc', st)
     | Some list \<Rightarrow>
         (case findIndex (\<lambda>m. m_id m = aiMsgId) list of
            None \<Rightarrow> (Inr (), acc', st)
          | Some lastIdx \<Rightarrow>
              (Inr (), acc',
               st\<lparr>messages := (messages st)
                    (sid \<mapsto> list[lastIdx := (list ! lastIdx)\<lparr>content_text := acc'\<rparr>])\<rparr>)))"

definition onEnd :: "store \<Rightarrow> store" where
  "onEnd st = st\<lparr>streaming := False, streamer := None\<rparr>"

definition onError :: "store \<Rightarrow> effect list \<times> store" where
  "onError st = ([ConsoleError], st\<lparr>streaming := False, streamer := None\<rparr>)"

definition stopStream :: "store \<Rightarrow> effect list \<times> store" where
  "stopStream st =
     ((case streamer st of None \<Rightarrow> [] | Some h \<Rightarrow> [AbortStream h]),
      st\<lparr>streaming := False, streamer := None\<rparr>)"

text \<open>
  The three closures as \<open>send\<close> passes them to \<open>api.streamMessage\<close>, on the pair of
  the captured \<open>acc\<close> and the store (the console output of \<open>onError\<close> is left out).
\<close>

definition send_callbacks :: "string \<Rightarrow> nat \<Rightarrow> (string \<times> store) callbacks" where
  "send_callbacks sid aiMsgId =
     \<lparr>onChunk_cb = (\<lambda>tok c.
        case onChunk sid aiMsgId tok c of
          (Inl e, c') \<Rightarrow> (Some e, False, c')
        | (Inr u, c') \<Rightarrow> (None, False, c')),
      onEnd_cb = (\<lambda>(acc, st). (None, False, (acc, onEnd st))),
      onError_cb = (\<lambda>e (acc, st). (None, False, (acc, snd (onError st))))\<rparr>"

text \<open>\<open>try { await api.deleteSession(sessionId); } catch {}\<close>: a rejection is swallowed.\<close>

definition deleteSession :: "api \<Rightarrow> string \<Rightarrow> store \<Rightarrow> outcome" where
  "deleteSession be sessionId st =
     (case api_deleteSession be sessionId of
        Inl e \<Rightarrow> deleteSession_local be sessionId st
      | Inr u \<Rightarrow> deleteSession_local be sessionId st)"

section \<open>Example states and backends\<close>

text \<open>Concrete values at which the theorems below are instantiated.\<close>

definition session0 :: session where
  "session0 = \<lparr>s_id = ''s0'', model_alias = ''m1'', use_rag = False,
               rag_corpus_ids = Some [], meta_stream = Some True\<rparr>"

definition session1 :: session where
  "session1 = \<lparr>s_id = ''s1'', model_alias = ''m2'', use_rag = False,
               rag_corpus_ids = Some [], meta_stream = Some True\<rparr>"

definition message0 :: message where
  "message0 = \<lparr>m_id = 7, session_id = ''s0'', role = User, message_type = ''text'',
               content_text = ''hi'', created_at = 1\<rparr>"

text \<open>One session, active, with an empty message list.\<close>

definition store_fresh :: store where
  "store_fresh =
     \<lparr>token = ''t'', models = [\<lparr>m_alias = ''m1''\<rparr>, \<lparr>m_alias = ''m2''\<rparr>], modelAlias = ''m1'',
      useRag = False, useStream = True, ragCorpusIds = [],
      sessions = [session0], activeSessionId = ''s0'',
      messages = [''s0'' \<mapsto> []], streaming = False, streamer = None\<rparr>"

text \<open>
  The same with one message in the active session, and with a full list of a hundred
  sessions \<open>s0\<close>, \<open>s00\<close>, \<open>s000\<close> and so on.
\<close>

definition store_used :: store where
  "store_used = store_fresh\<lparr>messages := [''s0'' \<mapsto> [message0]]\<rparr>"

definition session_nr :: "nat \<Rightarrow> session" where
  "session_nr n = session0\<lparr>s_id := ''s'' @ replicate n CHR ''0''\<rparr>"

definition store_full :: store where
  "store_full = store_used\<lparr>sessions := map session_nr [1..<101]\<rparr>"

text \<open>Two sessions with a message list each, the one with a message active.\<close>

definition store_two :: store where
  "store_two = store_used\<lparr>sessions := [session1, session0],
                           messages := [''s0'' \<mapsto> [message0], ''s1'' \<mapsto> []]\<rparr>"

text \<open>No model known and none chosen.\<close>

definition store_no_model :: store where
  "store_no_model = store_used\<lparr>models := [], modelAlias := []\<rparr>"

definition want_nothing :: desired where
  "want_nothing = \<lparr>d_modelAlias = None, d_useRag = None,
                   d_ragCorpusIds = None, d_useStream = None\<rparr>"

definition want_m2 :: desired where
  "want_m2 = \<lparr>d_modelAlias = Some ''m2'', d_useRag = Some False,
              d_ragCorpusIds = Some [], d_useStream = Some True\<rparr>"

text \<open>A backend that serves every call, one that refuses the patch only, and one that fails every call.\<close>

definition api_ok :: api where
  "api_ok =
     \<lparr>api_createSession = (\<lambda>body. Inr session1),
      api_patchSession = (\<lambda>i body. Inr (session0\<lparr>model_alias := ''m2''\<rparr>)),
      api_deleteSession = (\<lambda>i. Inr ()),
      api_listMessages = (\<lambda>i limit offset. Inr []),
      api_sendMessage = (\<lambda>i content. Inr (message0\<lparr>m_id := 8, role := Assistant\<rparr>))\<rparr>"

text \<open>A backend whose create call answers with the session that exists already.\<close>

definition api_same :: api where
  "api_same = api_ok\<lparr>api_createSession := (\<lambda>body. Inr session0)\<rparr>"

definition api_no_patch :: api where
  "api_no_patch = api_ok\<lparr>api_patchSession := (\<lambda>i body. Inl (HttpError 405))\<rparr>"

definition api_down :: api where
  "api_down =
     \<lparr>api_createSession = (\<lambda>body. Inl (HttpError 500)),
      api_patchSession = (\<lambda>i body. Inl (HttpError 409)),
      api_deleteSession = (\<lambda>i. Inl (HttpError 500)),
      api_listMessages = (\<lambda>i limit offset. Inl (HttpError 500)),
      api_sendMessage = (\<lambda>i content. Inl (HttpError 500))\<rparr>"

text \<open>
  Callbacks that only let themselves be recorded, callbacks whose \<open>onChunk\<close> calls
  \<open>abort\<close>, a successful response with a body and a failed one.
\<close>

definition plain_callbacks :: "unit callbacks" where
  "plain_callbacks =
     \<lparr>onChunk_cb = (\<lambda>tok c. (None, False, c)),
      onEnd_cb = (\<lambda>c. (None, False, c)),
      onError_cb = (\<lambda>e c. (None, False, c))\<rparr>"

definition aborting_callbacks :: "unit callbacks" where
  "aborting_callbacks = plain_callbacks\<lparr>onChunk_cb := (\<lambda>tok c. (None, True, c))\<rparr>"

definition response200 :: response where
  "response200 = \<lparr>r_ok = True, r_status = 200, r_has_body = True\<rparr>"

definition response500 :: response where
  "response500 = \<lparr>r_ok = False, r_status = 500, r_has_body = True\<rparr>"

section \<open>Properties of \<open>split\<close>\<close>

lemma js_split_Nil: "sep \<noteq> [] \<Longrightarrow> js_split sep [] = [[]]"
  by (simp add: js_split.simps)

lemma js_split_nonempty: "sep \<noteq> [] \<Longrightarrow> js_split sep s \<noteq> []"
  by (subst js_split.simps) (simp split: list.split)

lemma js_split_match:
  "sep \<noteq> [] \<Longrightarrow> js_split sep (sep @ r) = [] # js_split sep r"
  by (subst js_split.simps) simp

lemma js_split_step:
  assumes "sep \<noteq> []" "\<not> prefix sep (c # r)"
  shows "js_split sep (c # r) = (c # hd (js_split sep r)) # tl (js_split sep r)"
  using assms js_split_nonempty [of sep r]
  by (subst js_split.simps) (simp split: list.split)

lemma js_split_short:
  "length s < length sep \<Longrightarrow> js_split sep s = [s]"
proof (induction s)
  case Nil
  then show ?case by (auto simp: js_split_Nil)
next
  case (Cons c s)
  then have np: "\<not> prefix sep (c # s)" by (auto dest: prefix_length_le)
  from Cons have "sep \<noteq> []" by auto
  from js_split_step [OF this np] Cons show ?case by simp
qed

lemma js_split_single:
  "sep \<noteq> [] \<Longrightarrow> js_split sep s = [p] \<Longrightarrow> p = s"
proof (induction s arbitrary: p)
  case Nil
  then show ?case by (simp add: js_split_Nil)
next
  case (Cons c r)
  show ?case
  proof (cases "prefix sep (c # r)")
    case True
    then obtain r' where "c # r = sep @ r'" by (auto simp: prefix_def)
    then have "js_split sep (c # r) = [] # js_split sep r'"
      using Cons.prems(1) by (simp add: js_split_match)
    then show ?thesis
      using Cons.prems js_split_nonempty [of sep r'] by simp
  next
    case False
    from js_split_step [OF Cons.prems(1) False] Cons.prems(2)
    have "c # hd (js_split sep r) = p" and "tl (js_split sep r) = []" by auto
    moreover from this js_split_nonempty [OF Cons.prems(1), of r]
    have "js_split sep r = [hd (js_split sep r)]" by (cases "js_split sep r") auto
    ultimately show ?thesis using Cons.IH [OF Cons.prems(1)] by auto
  qed
qed

lemma js_split_append:
  "sep \<noteq> [] \<Longrightarrow>
   js_split sep (s @ t) = butlast (js_split sep s) @ js_split sep (last (js_split sep s) @ t)"
proof (induction sep s rule: js_split.induct)
  case (1 sep s)
  note ne = \<open>sep \<noteq> []\<close>
  show ?case
  proof (cases "s = []")
    case True
    then show ?thesis using ne by (simp add: js_split_Nil)
  next
    case sne: False
    show ?thesis
    proof (cases "prefix sep s")
      case True
      then obtain r where r: "s = sep @ r" by (auto simp: prefix_def)
      have IH: "js_split sep (r @ t) = butlast (js_split sep r) @ js_split sep (last (js_split sep r) @ t)"
        using "1.IH"(1) [OF ne sne True ne] r by simp
      show ?thesis using ne IH js_split_nonempty [OF ne, of r]
        by (simp add: r js_split_match)
    next
      case np: False
      obtain c r where s: "s = c # r" using sne by (cases s) auto
      show ?thesis
      proof (cases "prefix sep (s @ t)")
        case True
        with np have "length s < length sep"
          by (metis linorder_not_less prefix_length_prefix prefix_order.dual_order.refl prefixI append.right_neutral prefix_append)
        then have "js_split sep s = [s]" by (rule js_split_short)
        then show ?thesis by simp
      next
        case npt: False
        have IH: "js_split sep (r @ t) = butlast (js_split sep r) @ js_split sep (last (js_split sep r) @ t)"
          using "1.IH"(2) [OF ne sne np ne] s by simp
        have a: "js_split sep (s @ t) = (c # hd (js_split sep (r @ t))) # tl (js_split sep (r @ t))"
          using js_split_step [OF ne, of c "r @ t"] npt s by simp
        have b: "js_split sep s = (c # hd (js_split sep r)) # tl (js_split sep r)"
          using js_split_step [OF ne, of c r] np s by simp
        obtain p ps where pps: "js_split sep r = p # ps"
          using js_split_nonempty [OF ne, of r] by (cases "js_split sep r") auto
        show ?thesis
        proof (cases "ps = []")
          case True
          then have "js_split sep s = [c # p]" using b pps by simp
          moreover have "js_split sep r = [p]" using pps True by simp
          moreover from this have "p = r" using js_split_single [OF ne] by blast
          ultimately show ?thesis using s by simp
        next
          case False
          have "js_split sep (r @ t) = p # (butlast ps @ js_split sep (last ps @ t))"
            using IH pps False by simp
          then have "js_split sep (s @ t) = (c # p) # (butlast ps @ js_split sep (last ps @ t))"
            using a by simp
          moreover have "js_split sep s = (c # p) # ps" using b pps by simp
          ultimately show ?thesis using False by simp
        qed
      qed
    qed
  qed
qed

lemma js_split_last:
  "sep \<noteq> [] \<Longrightarrow> js_split sep (last (js_split sep s)) = [last (js_split sep s)]"
proof (induction sep s rule: js_split.induct)
  case (1 sep s)
  note ne = \<open>sep \<noteq> []\<close>
  show ?case
  proof (cases "s = []")
    case True
    then show ?thesis using ne by (simp add: js_split_Nil)
  next
    case sne: False
    show ?thesis
    proof (cases "prefix sep s")
      case True
      then obtain r where r: "s = sep @ r" by (auto simp: prefix_def)
      have "js_split sep (last (js_split sep r)) = [last (js_split sep r)]"
        using "1.IH"(1) [OF ne sne True ne] r by simp
      then show ?thesis using ne js_split_nonempty [OF ne, of r]
        by (simp add: r js_split_match)
    next
      case np: False
      obtain c r where s: "s = c # r" using sne by (cases s) auto
      have IH: "js_split sep (last (js_split sep r)) = [last (js_split sep r)]"
        using "1.IH"(2) [OF ne sne np ne] s by simp
      have b: "js_split sep s = (c # hd (js_split sep r)) # tl (js_split sep r)"
        using js_split_step [OF ne, of c r] np s by simp
      obtain p ps where pps: "js_split sep r = p # ps"
        using js_split_nonempty [OF ne, of r] by (cases "js_split sep r") auto
      show ?thesis
      proof (cases "ps = []")
        case True
        then have "p = r" using pps js_split_single [OF ne] by blast
        then have "js_split sep s = [s]" using b pps True s by simp
        then show ?thesis by simp
      next
        case False
        then have "last (js_split sep s) = last (js_split sep r)" using b pps by simp
        then show ?thesis using IH by simp
      qed
    qed
  qed
qed

lemma js_split_no_match:
  "sep \<noteq> [] \<Longrightarrow> \<not> sublist sep s \<Longrightarrow> js_split sep s = [s]"
proof (induction s)
  case Nil
  then show ?case by (simp add: js_split_Nil)
next
  case (Cons c r)
  then have np: "\<not> prefix sep (c # r)" and nr: "\<not> sublist sep r"
    by (auto simp: sublist_Cons_right)
  from Cons.IH [OF Cons.prems(1) nr] js_split_step [OF Cons.prems(1) np]
  show ?case by simp
qed

lemma js_split_frame:
  assumes "CHR ''\<newline>'' \<notin> set f"
  shows "js_split blank_line (f @ blank_line @ r) = f # js_split blank_line r"
  using assms
proof (induction f)
  case Nil
  have "blank_line \<noteq> []" by (simp add: blank_line_def)
  from js_split_match [OF this] show ?case by simp
next
  case (Cons c f)
  then have np: "\<not> prefix blank_line (c # f @ blank_line @ r)"
    by (auto simp: blank_line_def)
  have ne: "blank_line \<noteq> []" by (simp add: blank_line_def)
  from js_split_step [OF ne np] Cons show ?case by simp
qed

section \<open>Properties of the streaming reader\<close>

lemma blank_line_ne: "blank_line \<noteq> []"
  by (simp add: blank_line_def)

lemma frames_of_append:
  "frames_of (s @ t) = frames_of s @ frames_of (rest_of s @ t)"
  unfolding frames_of_def rest_of_def
  by (subst js_split_append [OF blank_line_ne])
     (simp add: butlast_append js_split_nonempty [OF blank_line_ne])

lemma rest_of_append:
  "rest_of (s @ t) = rest_of (rest_of s @ t)"
  unfolding frames_of_def rest_of_def
  by (subst js_split_append [OF blank_line_ne])
     (simp add: js_split_nonempty [OF blank_line_ne])

lemma frames_of_rest_of: "frames_of (rest_of s) = []"
  unfolding frames_of_def rest_of_def by (simp add: js_split_last [OF blank_line_ne])

lemma rest_of_rest_of: "rest_of (rest_of s) = rest_of s"
  unfolding frames_of_def rest_of_def by (simp add: js_split_last [OF blank_line_ne])

lemma emit_parts_append:
  "emit_parts cbs (xs @ ys) st =
     (case emit_parts cbs xs st of
        (Completed, st') \<Rightarrow> emit_parts cbs ys st'
      | (Returned, st') \<Rightarrow> (Returned, st')
      | (Threw e, st') \<Rightarrow> (Threw e, st'))"
proof (induction xs arbitrary: st)
  case Nil
  show ?case by simp
next
  case (Cons x xs)
  show ?case
    by (simp add: Cons Let_def split: option.split prod.split)
qed

lemma invoke_quiet:
  assumes "fst (h (client st)) = None" "\<not> fst (snd (h (client st)))"
  shows "invoke label h st =
           (None, st\<lparr>client := snd (snd (h (client st))), trace := trace st @ [label]\<rparr>)"
  using assms by (cases "h (client st)") (auto simp: invoke_def)

lemma invoke_trace: "trace (snd (invoke label h st)) = trace st @ [label]"
  by (simp add: invoke_def split: prod.split)

lemma invoke_phase: "phase (snd (invoke label h st)) = phase st"
  by (simp add: invoke_def split: prod.split)

text \<open>The loop over the parts with quiet callbacks: what it invokes and how it ends.\<close>

lemma emit_parts_quiet:
  assumes "quiet cbs"
  shows "fst (emit_parts cbs fs st) =
           (if ''[DONE]'' \<in> set (List.map_filter payload fs) then Returned else Completed)
         \<and> trace (snd (emit_parts cbs fs st)) =
             trace st @ map OnChunk (takeWhile (\<lambda>p. p \<noteq> ''[DONE]'') (List.map_filter payload fs))
               @ (if ''[DONE]'' \<in> set (List.map_filter payload fs) then [OnEnd] else [])
         \<and> aborted (snd (emit_parts cbs fs st)) = aborted st
         \<and> phase (snd (emit_parts cbs fs st)) = phase st"
proof (induction fs arbitrary: st)
  case Nil
  show ?case by simp
next
  case (Cons f fs)
  show ?case
  proof (cases "find (prefix ''data: '') (js_split newline f)")
    case None
    then have "payload f = None" by (simp add: payload_def)
    then show ?thesis using Cons None by simp
  next
    case (Some l)
    then have p: "payload f = Some (drop 6 l)" by (simp add: payload_def)
    show ?thesis
    proof (cases "drop 6 l = ''[DONE]''")
      case True
      have "invoke OnEnd (onEnd_cb cbs) st =
              (None, st\<lparr>client := snd (snd (onEnd_cb cbs (client st))), trace := trace st @ [OnEnd]\<rparr>)"
        using assms by (intro invoke_quiet) (simp_all add: quiet_def)
      then show ?thesis using Some p True by simp
    next
      case False
      let ?st' = "st\<lparr>client := snd (snd (onChunk_cb cbs (drop 6 l) (client st))),
                     trace := trace st @ [OnChunk (drop 6 l)]\<rparr>"
      have "invoke (OnChunk (drop 6 l)) (onChunk_cb cbs (drop 6 l)) st = (None, ?st')"
        using assms by (intro invoke_quiet) (simp_all add: quiet_def)
      then have "emit_parts cbs (f # fs) st = emit_parts cbs fs ?st'"
        using Some False by (simp add: Let_def)
      then show ?thesis using Cons [of ?st'] p False by simp
    qed
  qed
qed

lemma after_abort_Settled: "phase st = Settled \<Longrightarrow> after_abort cbs st = st"
  by (simp add: after_abort_def)

lemma after_abort_clear: "\<not> aborted st \<Longrightarrow> after_abort cbs st = st"
  by (simp add: after_abort_def)

lemma step_Settled:
  "phase st = Settled \<Longrightarrow>
   step cbs ev st = (case ev of AbortCall \<Rightarrow> st\<lparr>aborted := True\<rparr> | _ \<Rightarrow> st)"
  by (cases ev) (simp_all add: step_def after_abort_def)

lemma run_Settled:
  "phase st = Settled \<Longrightarrow>
   phase (run cbs evs st) = Settled \<and> trace (run cbs evs st) = trace st
   \<and> client (run cbs evs st) = client st"
proof (induction evs arbitrary: st)
  case Nil
  then show ?case by simp
next
  case (Cons ev evs)
  have "phase (step cbs ev st) = Settled \<and> trace (step cbs ev st) = trace st
        \<and> client (step cbs ev st) = client st"
    using Cons.prems by (cases ev) (simp_all add: step_Settled)
  then show ?case using Cons.IH [of "step cbs ev st"] by simp
qed

lemma step_ReadValue_quiet:
  assumes "quiet cbs" "phase st = AwaitRead buf" "\<not> aborted st"
  shows "step cbs (ReadValue v) st =
           (case emit_parts cbs (frames_of (buf @ v)) st of
              (Completed, st') \<Rightarrow> st'\<lparr>phase := AwaitRead (rest_of (buf @ v))\<rparr>
            | (Returned, st') \<Rightarrow> st'\<lparr>phase := Settled\<rparr>
            | (Threw e, st') \<Rightarrow> catch_handler cbs e st')"
proof -
  note q = emit_parts_quiet [OF assms(1), of "frames_of (buf @ v)" st]
  obtain x st' where e: "emit_parts cbs (frames_of (buf @ v)) st = (x, st')"
    by (cases "emit_parts cbs (frames_of (buf @ v)) st") auto
  from q e assms(3) have a: "\<not> aborted st'" and x: "x = Completed \<or> x = Returned"
    by (auto split: if_splits)
  from x show ?thesis
    using e a assms(2)
    by (auto simp: step_def frames_of_def rest_of_def Let_def after_abort_def)
qed

lemma run_append: "run cbs (xs @ ys) st = run cbs ys (run cbs xs st)"
  by (induction xs arbitrary: st) auto

lemma run_values_Settled: "phase st = Settled \<Longrightarrow> run cbs (map ReadValue cs) st = st"
  by (induction cs) (simp_all add: step_Settled)

lemma invoke_set_phase:
  "invoke label h (st\<lparr>phase := p\<rparr>) =
     (case invoke label h st of (x, s) \<Rightarrow> (x, s\<lparr>phase := p\<rparr>))"
  by (simp add: invoke_def split: prod.split)

lemma emit_parts_set_phase:
  "emit_parts cbs fs (st\<lparr>phase := p\<rparr>) =
     (case emit_parts cbs fs st of (x, s) \<Rightarrow> (x, s\<lparr>phase := p\<rparr>))"
proof (induction fs arbitrary: st)
  case Nil
  show ?case by simp
next
  case (Cons f fs)
  show ?case
    by (simp add: Cons invoke_set_phase Let_def split: option.split prod.split)
qed

lemma run_chunks:
  assumes "quiet cbs"
  shows "phase st = AwaitRead buf \<Longrightarrow> \<not> aborted st \<Longrightarrow> frames_of buf = [] \<Longrightarrow> rest_of buf = buf \<Longrightarrow>
         run cbs (map ReadValue cs @ evs) st = run cbs (ReadValue (concat cs) # evs) st"
proof (induction cs arbitrary: st buf)
  case Nil
  have "st\<lparr>phase := AwaitRead buf\<rparr> = st" using Nil.prems(1) by (cases st) simp
  then have "step cbs (ReadValue []) st = st"
    using step_ReadValue_quiet [OF assms Nil.prems(1,2), of "[]"] Nil.prems(3,4) by simp
  then show ?case by simp
next
  case (Cons c cs)
  let ?b = "rest_of (buf @ c)"
  obtain x st' where e: "emit_parts cbs (frames_of (buf @ c)) st = (x, st')"
    by (cases "emit_parts cbs (frames_of (buf @ c)) st") auto
  from emit_parts_quiet [OF assms, of "frames_of (buf @ c)" st] e Cons.prems(1,2)
  have x: "x = Completed \<or> x = Returned" and a: "\<not> aborted st'" and ph: "phase st' = AwaitRead buf"
    by (auto split: if_splits)
  have f: "frames_of (buf @ c @ concat cs) = frames_of (buf @ c) @ frames_of (?b @ concat cs)"
    using frames_of_append [of "buf @ c" "concat cs"] by simp
  have r: "rest_of (buf @ c @ concat cs) = rest_of (?b @ concat cs)"
    using rest_of_append [of "buf @ c" "concat cs"] by simp
  have whole: "step cbs (ReadValue (c @ concat cs)) st =
      (case emit_parts cbs (frames_of (buf @ c) @ frames_of (?b @ concat cs)) st of
              (Completed, s) \<Rightarrow> s\<lparr>phase := AwaitRead (rest_of (?b @ concat cs))\<rparr>
            | (Returned, s) \<Rightarrow> s\<lparr>phase := Settled\<rparr>
            | (Threw e, s) \<Rightarrow> catch_handler cbs e s)"
    using step_ReadValue_quiet [OF assms Cons.prems(1,2), of "c @ concat cs"] unfolding f r .
  from x show ?case
  proof
    assume xc: "x = Completed"
    let ?s1 = "st'\<lparr>phase := AwaitRead ?b\<rparr>"
    have s1: "step cbs (ReadValue c) st = ?s1"
      using step_ReadValue_quiet [OF assms Cons.prems(1,2), of c] e xc by simp
    have IH: "run cbs (map ReadValue cs @ evs) ?s1 = run cbs (ReadValue (concat cs) # evs) ?s1"
      by (rule Cons.IH [of ?s1 ?b]) (simp_all add: a frames_of_rest_of rest_of_rest_of)
    have "step cbs (ReadValue (concat cs)) ?s1 =
      (case emit_parts cbs (frames_of (?b @ concat cs)) ?s1 of
              (Completed, s) \<Rightarrow> s\<lparr>phase := AwaitRead (rest_of (?b @ concat cs))\<rparr>
            | (Returned, s) \<Rightarrow> s\<lparr>phase := Settled\<rparr>
            | (Threw e, s) \<Rightarrow> catch_handler cbs e s)"
      by (rule step_ReadValue_quiet [OF assms]) (simp_all add: a)
    also have "\<dots> =
      (case emit_parts cbs (frames_of (?b @ concat cs)) st' of
              (Completed, s) \<Rightarrow> s\<lparr>phase := AwaitRead (rest_of (?b @ concat cs))\<rparr>
            | (Returned, s) \<Rightarrow> s\<lparr>phase := Settled\<rparr>
            | (Threw e, s) \<Rightarrow> catch_handler cbs e s)"
      by (simp add: emit_parts_set_phase catch_handler_def invoke_set_phase
               split: prod.split loop_exit.split)
    also have "\<dots> = step cbs (ReadValue (c @ concat cs)) st"
      by (simp add: whole emit_parts_append e xc)
    finally have "step cbs (ReadValue (concat cs)) ?s1 = step cbs (ReadValue (c @ concat cs)) st" .
    then show ?thesis using IH s1 by simp
  next
    assume xr: "x = Returned"
    let ?s1 = "st'\<lparr>phase := Settled\<rparr>"
    have s1: "step cbs (ReadValue c) st = ?s1"
      using step_ReadValue_quiet [OF assms Cons.prems(1,2), of c] e xr by simp
    have w: "step cbs (ReadValue (c @ concat cs)) st = ?s1"
      by (simp add: whole emit_parts_append e xr)
    have "run cbs (map ReadValue cs) ?s1 = ?s1" by (rule run_values_Settled) simp
    then show ?thesis using s1 w by (simp add: run_append)
  qed
qed

lemma takeWhile_all: "x \<notin> set xs \<Longrightarrow> takeWhile (\<lambda>p. p \<noteq> x) xs = xs"
  by (induction xs) auto

lemma step_text:
  assumes "quiet cbs" "phase st = AwaitRead []" "\<not> aborted st"
  shows "trace (step cbs (ReadValue s) st) =
           trace st @ map OnChunk (takeWhile (\<lambda>p. p \<noteq> ''[DONE]'') (payloads s))
             @ (if ''[DONE]'' \<in> set (payloads s) then [OnEnd] else [])
         \<and> phase (step cbs (ReadValue s) st) =
             (if ''[DONE]'' \<in> set (payloads s) then Settled else AwaitRead (rest_of s))
         \<and> aborted (step cbs (ReadValue s) st) = False"
proof -
  obtain x st' where e: "emit_parts cbs (frames_of s) st = (x, st')"
    by (cases "emit_parts cbs (frames_of s) st") auto
  from emit_parts_quiet [OF assms(1), of "frames_of s" st] e assms(3)
  show ?thesis
    using step_ReadValue_quiet [OF assms, of s]
    by (auto simp: payloads_def split: if_splits)
qed

lemma step_Fetched:
  assumes "r_ok res" "r_has_body res"
  shows "step cbs (Fetched res) (start c) = (start c)\<lparr>phase := AwaitRead []\<rparr>"
  using assms by (simp add: step_def start_def after_abort_def)

lemma step_ReadDone_quiet:
  assumes "quiet cbs" "phase st = AwaitRead buf" "\<not> aborted st"
  shows "trace (step cbs ReadDone st) = trace st @ [OnEnd]"
proof -
  have "invoke OnEnd (onEnd_cb cbs) st =
          (None, st\<lparr>client := snd (snd (onEnd_cb cbs (client st))), trace := trace st @ [OnEnd]\<rparr>)"
    using assms(1) by (intro invoke_quiet) (simp_all add: quiet_def)
  then show ?thesis using assms(2) by (simp add: step_def after_abort_def)
qed

lemma stream_closed:
  assumes "quiet cbs" "r_ok res" "r_has_body res"
  shows "trace (streamMessage cbs c (Fetched res # map ReadValue cs @ [ReadDone]))
         = expected_callbacks (concat cs)"
proof -
  let ?s0 = "(start c)\<lparr>phase := AwaitRead []\<rparr>"
  let ?s1 = "step cbs (ReadValue (concat cs)) ?s0"
  have b: "frames_of [] = []" "rest_of [] = []"
    by (simp_all add: frames_of_def rest_of_def js_split_Nil [OF blank_line_ne])
  have s0: "phase ?s0 = AwaitRead []" "\<not> aborted ?s0" "trace ?s0 = []"
    by (simp_all add: start_def)
  have "streamMessage cbs c (Fetched res # map ReadValue cs @ [ReadDone])
        = run cbs (map ReadValue cs @ [ReadDone]) ?s0"
    by (simp add: streamMessage_def step_Fetched [OF assms(2,3)])
  also have "\<dots> = run cbs (ReadValue (concat cs) # [ReadDone]) ?s0"
    by (rule run_chunks [OF assms(1) s0(1,2) b])
  also have "\<dots> = step cbs ReadDone ?s1" by simp
  finally have eq: "streamMessage cbs c (Fetched res # map ReadValue cs @ [ReadDone])
        = step cbs ReadDone ?s1" .
  note t = step_text [OF assms(1) s0(1,2), of "concat cs"]
  show ?thesis
  proof (cases "''[DONE]'' \<in> set (payloads (concat cs))")
    case True
    with t have "phase ?s1 = Settled" by simp
    then have "step cbs ReadDone ?s1 = ?s1" by (simp add: step_Settled)
    then show ?thesis using eq t True s0(3) by (simp add: expected_callbacks_def)
  next
    case False
    with t have "phase ?s1 = AwaitRead (rest_of (concat cs))" "\<not> aborted ?s1" by simp_all
    from step_ReadDone_quiet [OF assms(1) this]
    show ?thesis using eq t False s0(3) by (simp add: expected_callbacks_def takeWhile_all)
  qed
qed

lemma stream_sentinel:
  assumes "quiet cbs" "r_ok res" "r_has_body res" "''[DONE]'' \<in> set (payloads (concat cs))"
  shows "trace (streamMessage cbs c (Fetched res # map ReadValue cs @ evs))
         = expected_callbacks (concat cs)"
proof -
  let ?s0 = "(start c)\<lparr>phase := AwaitRead []\<rparr>"
  let ?s1 = "step cbs (ReadValue (concat cs)) ?s0"
  have b: "frames_of [] = []" "rest_of [] = []"
    by (simp_all add: frames_of_def rest_of_def js_split_Nil [OF blank_line_ne])
  have s0: "phase ?s0 = AwaitRead []" "\<not> aborted ?s0" "trace ?s0 = []"
    by (simp_all add: start_def)
  have "streamMessage cbs c (Fetched res # map ReadValue cs @ evs)
        = run cbs (map ReadValue cs @ evs) ?s0"
    by (simp add: streamMessage_def step_Fetched [OF assms(2,3)])
  also have "\<dots> = run cbs (ReadValue (concat cs) # evs) ?s0"
    by (rule run_chunks [OF assms(1) s0(1,2) b])
  also have "\<dots> = run cbs evs ?s1" by simp
  finally have eq: "streamMessage cbs c (Fetched res # map ReadValue cs @ evs) = run cbs evs ?s1" .
  note t = step_text [OF assms(1) s0(1,2), of "concat cs"]
  with assms(4) have "phase ?s1 = Settled" by simp
  from run_Settled [OF this, of cbs evs] show ?thesis
    using eq t assms(4) s0(3) by (simp add: expected_callbacks_def)
qed

lemma newline_ne: "newline \<noteq> []"
  by (simp add: newline_def)

lemma payload_data_line:
  assumes "CHR ''\<newline>'' \<notin> set p"
  shows "payload (''data: '' @ p) = Some p"
proof -
  have "\<not> sublist newline (''data: '' @ p)"
  proof
    assume "sublist newline (''data: '' @ p)"
    then have "set newline \<subseteq> set (''data: '' @ p)" by (rule set_mono_sublist)
    then show False using assms by (auto simp: newline_def)
  qed
  then have "js_split newline (''data: '' @ p) = [''data: '' @ p]"
    by (rule js_split_no_match [OF newline_ne])
  then show ?thesis by (simp add: payload_def)
qed

lemma js_split_frames:
  assumes "\<forall>f\<in>set fs. CHR ''\<newline>'' \<notin> set f" "\<not> sublist blank_line tail"
  shows "js_split blank_line (concat (map (\<lambda>f. f @ blank_line) fs) @ tail) = fs @ [tail]"
  using assms
proof (induction fs)
  case Nil
  then show ?case by (simp add: js_split_no_match [OF blank_line_ne])
next
  case (Cons f fs)
  then have "CHR ''\<newline>'' \<notin> set f" by simp
  from js_split_frame [OF this, of "concat (map (\<lambda>f. f @ blank_line) fs) @ tail"] Cons
  show ?case by simp
qed

lemma frames_of_data_frames:
  assumes "\<forall>p\<in>set ps. CHR ''\<newline>'' \<notin> set p" "\<not> sublist blank_line tail"
  shows "js_split blank_line (concat (map data_frame ps) @ tail) = map (\<lambda>p. ''data: '' @ p) ps @ [tail]"
proof -
  have "\<forall>f\<in>set (map (\<lambda>p. ''data: '' @ p) ps). CHR ''\<newline>'' \<notin> set f"
    using assms(1) by auto
  moreover have "data_frame = (\<lambda>p. (''data: '' @ p) @ blank_line)"
    by (rule ext) (simp add: data_frame_def)
  ultimately show ?thesis
    using js_split_frames [OF _ assms(2), of "map (\<lambda>p. ''data: '' @ p) ps"]
    by (simp add: comp_def)
qed

lemma payloads_data_frames:
  assumes "\<forall>p\<in>set ps. CHR ''\<newline>'' \<notin> set p" "\<not> sublist blank_line tail"
  shows "payloads (concat (map data_frame ps) @ tail) = ps"
proof -
  have "List.map_filter payload (map (\<lambda>p. ''data: '' @ p) ps) = ps"
    using assms(1) by (induction ps) (simp_all add: payload_data_line del: append.simps)
  then show ?thesis
    by (simp add: payloads_def frames_of_def frames_of_data_frames [OF assms])
qed

text \<open>
  Claim C5, as amended. For a successful response with a body, with callbacks that
  return normally and do not call \<open>abort\<close>, and however the text of the stream is cut
  into chunks, the reader's invocations are
  those of the whole text: one \<open>onChunk\<close> for each complete blank-line-delimited frame
  that has a line starting with \<open>data: \<close>, in frame order, carrying the rest of the
  first such line, up to the first payload \<open>[DONE]\<close>; then one \<open>onEnd\<close> and no
  \<open>onError\<close>. A frame cut by a chunk boundary is therefore one token, the unterminated
  last part is dropped, and the sentinel gives no token. Once the sentinel has been read
  nothing that follows (a failing read, a call of \<open>abort\<close>) adds an invocation. For a
  text made of frames \<open>data: p\<close> with single-line payloads, followed by a partial frame,
  the payloads are exactly the \<open>p\<close>. A frame with no \<open>data: \<close> line gives no token.
\<close>

theorem stream_reader_frames:
  "(quiet cbs \<and> r_ok res \<and> r_has_body res \<longrightarrow>
      trace (streamMessage cbs c (Fetched res # map ReadValue cs @ [ReadDone]))
        = expected_callbacks (concat cs)
      \<and> (''[DONE]'' \<in> set (payloads (concat cs)) \<longrightarrow>
           trace (streamMessage cbs c (Fetched res # map ReadValue cs @ evs))
             = expected_callbacks (concat cs)))
   \<and> ((\<forall>p\<in>set ps. CHR ''\<newline>'' \<notin> set p) \<and> \<not> sublist blank_line tail \<longrightarrow>
        payloads (concat (map data_frame ps) @ tail) = ps)"
  using stream_closed [of cbs res c cs] stream_sentinel [of cbs res cs c evs]
    payloads_data_frames [of ps tail]
  by blast

lemma quiet_plain: "quiet plain_callbacks"
  by (simp add: quiet_def plain_callbacks_def)

theorem stream_reader_frames_witness:
  "quiet plain_callbacks \<and> r_ok response200 \<and> r_has_body response200
   \<and> trace (streamMessage plain_callbacks () (Fetched response200 #
       map ReadValue [''data: hello\<newline>\<newline>data: world\<newline>\<newline>data: [DONE]\<newline>\<newline>''] @ [ReadDone]))
     = [OnChunk ''hello'', OnChunk ''world'', OnEnd]
   \<and> ''[DONE]'' \<in> set (payloads (concat [''data: hel'', ''lo\<newline>\<newline>data: world\<newline>\<newline>data: [DONE]\<newline>\<newline>'']))
   \<and> trace (streamMessage plain_callbacks () (Fetched response200 #
         map ReadValue [''data: hel'', ''lo\<newline>\<newline>data: world\<newline>\<newline>data: [DONE]\<newline>\<newline>'']
           @ [ReadFailed NetworkError, AbortCall]))
       = [OnChunk ''hello'', OnChunk ''world'', OnEnd]
   \<and> CHR ''\<newline>'' \<notin> set ''hello'' \<and> CHR ''\<newline>'' \<notin> set ''world''
   \<and> \<not> sublist blank_line ''data: par''
   \<and> payloads (concat (map data_frame [''hello'', ''world'']) @ ''data: par'') = [''hello'', ''world'']"
proof -
  let ?cs = "[''data: hel'', ''lo\<newline>\<newline>data: world\<newline>\<newline>data: [DONE]\<newline>\<newline>'']"
  let ?one = "[''data: hello\<newline>\<newline>data: world\<newline>\<newline>data: [DONE]\<newline>\<newline>'']"
  have r: "r_ok response200" "r_has_body response200"
    by (simp_all add: response200_def)
  have h1: "''[DONE]'' \<in> set (payloads (concat ?cs))"
    by code_simp
  have e: "expected_callbacks (concat ?cs) = [OnChunk ''hello'', OnChunk ''world'', OnEnd]"
    by code_simp
  have e1: "expected_callbacks (concat ?one) = [OnChunk ''hello'', OnChunk ''world'', OnEnd]"
    by code_simp
  have h2: "CHR ''\<newline>'' \<notin> set ''hello'' \<and> CHR ''\<newline>'' \<notin> set ''world''"
    by simp
  have h3: "\<not> sublist blank_line ''data: par''"
    by code_simp
  from stream_reader_frames [of plain_callbacks response200 "()" ?one] quiet_plain r e1
  have w: "trace (streamMessage plain_callbacks () (Fetched response200 # map ReadValue ?one @ [ReadDone]))
     = [OnChunk ''hello'', OnChunk ''world'', OnEnd]"
    by simp
  from stream_reader_frames [of plain_callbacks response200 "()" ?cs
      "[ReadFailed NetworkError, AbortCall]" "[''hello'', ''world'']" "''data: par''"]
    quiet_plain r h1 e h2 h3
  have v: "trace (streamMessage plain_callbacks () (Fetched response200 # map ReadValue ?cs
             @ [ReadFailed NetworkError, AbortCall]))
       = [OnChunk ''hello'', OnChunk ''world'', OnEnd]"
    and u: "payloads (concat (map data_frame [''hello'', ''world'']) @ ''data: par'') = [''hello'', ''world'']"
    by simp_all
  from quiet_plain r w h1 v h2 h3 u show ?thesis by blast
qed

text \<open>
  The claim as first stated fails in four ways. A frame that has no line starting with
  \<open>data: \<close> gives no token (two complete frames, one token). The callbacks run inside
  the chain, so a throwing \<open>onChunk\<close> ends the stream with \<open>onError\<close> and without
  \<open>onEnd\<close>: the callbacks of \<open>send\<close> do so once the session has been deleted. And
  an \<open>onChunk\<close> that calls \<open>abort\<close> makes the outcome depend on the chunking: the
  frame of a later chunk is never read. And the body of a response whose status is not
  ok is not read at all: \<open>onError\<close> is all that is invoked.
\<close>

theorem stream_reader_frames_counterexample:
  "frames_of '': keep-alive\<newline>\<newline>data: hi\<newline>\<newline>'' = ['': keep-alive'', ''data: hi'']
   \<and> trace (streamMessage plain_callbacks ()
         [Fetched response200, ReadValue '': keep-alive\<newline>\<newline>data: hi\<newline>\<newline>'', ReadDone])
       = [OnChunk ''hi'', OnEnd]
   \<and> trace (streamMessage (send_callbacks ''s0'' 9)
         ([], snd (snd (deleteSession api_ok ''s0'' store_used)))
         [Fetched response200, ReadValue ''data: hi\<newline>\<newline>'', ReadDone])
       = [OnChunk ''hi'', OnError TypeError]
   \<and> trace (streamMessage aborting_callbacks ()
         [Fetched response200, ReadValue ''data: a\<newline>\<newline>'', ReadValue ''data: b\<newline>\<newline>'', ReadDone])
       = [OnChunk ''a'', OnError AbortError]
   \<and> trace (streamMessage plain_callbacks ()
         [Fetched response500, ReadValue ''data: hi\<newline>\<newline>'', ReadDone])
       = [OnError (HttpError 500)]"
proof -
  have 1: "frames_of '': keep-alive\<newline>\<newline>data: hi\<newline>\<newline>'' = ['': keep-alive'', ''data: hi'']"
    by code_simp
  have 2: "trace (streamMessage plain_callbacks ()
         [Fetched response200, ReadValue '': keep-alive\<newline>\<newline>data: hi\<newline>\<newline>'', ReadDone])
       = [OnChunk ''hi'', OnEnd]"
    by code_simp
  have 3: "trace (streamMessage (send_callbacks ''s0'' 9)
         ([], snd (snd (deleteSession api_ok ''s0'' store_used)))
         [Fetched response200, ReadValue ''data: hi\<newline>\<newline>'', ReadDone])
       = [OnChunk ''hi'', OnError TypeError]"
    by code_simp
  have 4: "trace (streamMessage aborting_callbacks ()
         [Fetched response200, ReadValue ''data: a\<newline>\<newline>'', ReadValue ''data: b\<newline>\<newline>'', ReadDone])
       = [OnChunk ''a'', OnError AbortError]"
    by code_simp
  have 5: "trace (streamMessage plain_callbacks ()
         [Fetched response500, ReadValue ''data: hi\<newline>\<newline>'', ReadDone])
       = [OnError (HttpError 500)]"
    by code_simp
  from 1 2 3 4 5 show ?thesis by blast
qed

section \<open>Cancelling a stream\<close>










section \<open>Properties of the transport\<close>

lemma api_response_rejected_401:
  "response_status err = Some 401 \<Longrightarrow>
   api_response_rejected err b = (Inl err, b\<lparr>local_token := None, location_hash := ''#/login''\<rparr>)"
  by (simp add: api_response_rejected_def)

text \<open>
  Claim C9 at the failing input: a 401 response that comes through the interceptor of
  \<open>web/app/api/http.js\<close> while a token is stored. The promise is rejected and the hash
  is set to the login view, but the token is still in \<open>localStorage\<close>; the
  interceptor of \<open>web/app/api.js\<close> removes it.
\<close>

theorem http_response_rejected_keeps_token:
  "http_response_rejected \<lparr>response_status = Some 401\<rparr>
     \<lparr>local_token = Some ''abc'', location_hash = ''#/chat''\<rparr>
   = (Inl \<lparr>response_status = Some 401\<rparr>,
      \<lparr>local_token = Some ''abc'', location_hash = ''#/login''\<rparr>)"
  by (simp add: http_response_rejected_def)

section \<open>Properties of the store\<close>

lemma switchSession_same: "switchSession be (activeSessionId st) st = (Inr (), [], st)"
  by (simp add: switchSession_def)

text \<open>
  Claim C10. Switching to the session that is already active returns at once: the
  promise resolves, nothing is sent to the backend, and the store (active id, message
  caches, configuration snapshot and all the rest) is the same.
\<close>

theorem switchSession_active_noop:
  "switchSession be (activeSessionId st) st = (Inr (), [], st)"
  by (simp add: switchSession_def)

text \<open>
  Claim C4. With the session list at its maximum the creation branch shows the
  session-limit warning (the form \<open>QuotaExceeded\<close> takes in the store) and returns: no call
  is made to the backend and the store, with its session list, is unchanged.
\<close>

theorem createAndActivate_quota:
  "length (sessions st) \<ge> MAX_SESSIONS \<Longrightarrow>
   createAndActivate be d st = (Inr (), [Alert (SessionLimit MAX_SESSIONS)], st)"
  by (simp add: createAndActivate_def)

theorem createAndActivate_quota_witness:
  "length (sessions store_full) \<ge> MAX_SESSIONS
   \<and> createAndActivate api_ok want_m2 store_full = (Inr (), [Alert (SessionLimit MAX_SESSIONS)], store_full)"
proof -
  have h: "length (sessions store_full) \<ge> MAX_SESSIONS"
    by (simp add: store_full_def MAX_SESSIONS_def)
  from h createAndActivate_quota [OF h] show ?thesis by blast
qed

text \<open>
  Claim C8, as amended. An input of more than 4000 characters never reaches the backend
  and leaves the store, with its message lists, unchanged; the input-limit warning is
  shown unless the input is blank (nothing but white space), which \<open>send\<close> drops
  silently before it looks at the length.
\<close>

theorem send_long_input:
  "length input > MAX_INPUT_CHARS \<Longrightarrow>
   send be now input st =
     (Inr (), (if js_trim input = [] then [] else [Alert (InputLimit MAX_INPUT_CHARS)]), st)"
  by (auto simp: send_def)

lemma is_ws_simps: "\<not> is_ws CHR ''a''" "is_ws CHR '' ''"
  by (simp_all add: is_ws_def)

theorem send_long_input_witness:
  "length (replicate 4001 CHR ''a'') > MAX_INPUT_CHARS
   \<and> send api_ok (\<lambda>k. 1000) (replicate 4001 CHR ''a'') store_fresh
       = (Inr (), [Alert (InputLimit MAX_INPUT_CHARS)], store_fresh)"
proof -
  have h: "length (replicate 4001 CHR ''a'') > MAX_INPUT_CHARS"
    by (simp add: MAX_INPUT_CHARS_def)
  have t: "js_trim (replicate 4001 CHR ''a'') \<noteq> []"
    by (simp add: js_trim_def is_ws_simps)
  from h t send_long_input [OF h, of api_ok "\<lambda>k. 1000" store_fresh] show ?thesis by simp
qed

text \<open>
  The claim as first stated (every input over the limit is rejected with the quota
  warning) fails on 4001 spaces: \<open>send\<close> returns without any warning.
\<close>

theorem send_long_input_counterexample:
  "length (replicate 4001 CHR '' '') > MAX_INPUT_CHARS
   \<and> send api_ok (\<lambda>k. 1000) (replicate 4001 CHR '' '') store_fresh = (Inr (), [], store_fresh)"
  by (simp add: MAX_INPUT_CHARS_def send_def js_trim_def is_ws_simps)

lemma switchSession_same':
  "i = activeSessionId st \<Longrightarrow> switchSession be i st = (Inr (), [], st)"
  by (simp add: switchSession_def)

lemma deleteSession_local_outcome:
  "deleteSession_local be sid st =
     (Inr (), [Call (DeleteSession sid)],
      st\<lparr>sessions := filter (\<lambda>s. s_id s \<noteq> sid) (sessions st),
         messages := (messages st)(sid := None),
         activeSessionId :=
           (if activeSessionId st = sid
            then (case filter (\<lambda>s. s_id s \<noteq> sid) (sessions st) of [] \<Rightarrow> [] | s # _ \<Rightarrow> s_id s)
            else activeSessionId st)\<rparr>)"
  by (simp add: deleteSession_local_def Let_def switchSession_same')

lemma deleteSession_eq_local: "deleteSession be sid st = deleteSession_local be sid st"
  by (simp add: deleteSession_def split: sum.split)

lemma head_of_filter:
  "filter P xs = y # ys \<Longrightarrow> P y"
proof -
  assume "filter P xs = y # ys"
  then have "y \<in> set (filter P xs)" by simp
  then show "P y" by simp
qed

text \<open>
  Claim C7. Whatever the backend answers to the delete call, and also when it fails,
  \<open>deleteSession\<close> resolves after that one call with exactly the sessions of other ids
  left in the list, in their order, the message list under the id removed and every
  other message list kept; when the deleted session was the active one, the first of the
  remaining sessions becomes active (none, if none remains). So the store afterwards has
  no session with that id, no message list under it and (for a proper, non-empty id) not
  that id as the active one; and the outcome is the one of a backend whose delete call
  fails.
\<close>

theorem deleteSession_forgets:
  "deleteSession be sid st =
     (Inr (), [Call (DeleteSession sid)],
      st\<lparr>sessions := filter (\<lambda>s. s_id s \<noteq> sid) (sessions st),
         messages := (messages st)(sid := None),
         activeSessionId :=
           (if activeSessionId st = sid
            then (case filter (\<lambda>s. s_id s \<noteq> sid) (sessions st) of [] \<Rightarrow> [] | s # _ \<Rightarrow> s_id s)
            else activeSessionId st)\<rparr>)
   \<and> sid \<notin> s_id ` set (sessions (snd (snd (deleteSession be sid st))))
   \<and> messages (snd (snd (deleteSession be sid st))) sid = None
   \<and> (sid \<noteq> [] \<longrightarrow> activeSessionId (snd (snd (deleteSession be sid st))) \<noteq> sid)
   \<and> deleteSession (be\<lparr>api_deleteSession := (\<lambda>i. Inl e)\<rparr>) sid st = deleteSession be sid st"
proof -
  let ?st' = "snd (snd (deleteSession be sid st))"
  note O = deleteSession_local_outcome [of be sid st]
  have o: "deleteSession be sid st =
     (Inr (), [Call (DeleteSession sid)],
      st\<lparr>sessions := filter (\<lambda>s. s_id s \<noteq> sid) (sessions st),
         messages := (messages st)(sid := None),
         activeSessionId :=
           (if activeSessionId st = sid
            then (case filter (\<lambda>s. s_id s \<noteq> sid) (sessions st) of [] \<Rightarrow> [] | s # _ \<Rightarrow> s_id s)
            else activeSessionId st)\<rparr>)"
    using O by (simp only: deleteSession_eq_local)
  have a: "sid \<notin> s_id ` set (sessions ?st')"
    by (auto simp: o)
  have b: "messages ?st' sid = None"
    by (simp add: o)
  have c: "activeSessionId ?st' \<noteq> sid" if "sid \<noteq> []"
    using that by (auto simp: o split: list.splits dest: head_of_filter)
  have d: "deleteSession (be\<lparr>api_deleteSession := (\<lambda>i. Inl e)\<rparr>) sid st = deleteSession be sid st"
    by (simp only: deleteSession_eq_local deleteSession_local_outcome)
  from o a b c d show ?thesis by blast
qed

lemma store_two_facts:
  "sessions store_two = [session1, session0]"
  "messages store_two = [''s0'' \<mapsto> [message0], ''s1'' \<mapsto> []]"
  "activeSessionId store_two = ''s0''"
  by (simp_all add: store_two_def store_used_def store_fresh_def)

theorem deleteSession_forgets_witness:
  "''s0'' \<noteq> []
   \<and> fst (deleteSession api_down ''s0'' store_two) = Inr ()
   \<and> fst (snd (deleteSession api_down ''s0'' store_two)) = [Call (DeleteSession ''s0'')]
   \<and> sessions (snd (snd (deleteSession api_down ''s0'' store_two))) = [session1]
   \<and> messages (snd (snd (deleteSession api_down ''s0'' store_two))) ''s0'' = None
   \<and> messages (snd (snd (deleteSession api_down ''s0'' store_two))) ''s1'' = Some []
   \<and> activeSessionId (snd (snd (deleteSession api_down ''s0'' store_two))) = ''s1''
   \<and> activeSessionId (snd (snd (deleteSession api_down ''s0'' store_two))) \<noteq> ''s0''"
proof -
  note T = deleteSession_forgets [of api_down "''s0''" store_two]
  have i: "s_id session1 = ''s1''" "s_id session0 = ''s0''"
    by (simp_all add: session1_def session0_def)
  from T have "deleteSession api_down ''s0'' store_two =
     (Inr (), [Call (DeleteSession ''s0'')],
      store_two\<lparr>sessions := filter (\<lambda>s. s_id s \<noteq> ''s0'') (sessions store_two),
         messages := (messages store_two)(''s0'' := None),
         activeSessionId :=
           (if activeSessionId store_two = ''s0''
            then (case filter (\<lambda>s. s_id s \<noteq> ''s0'') (sessions store_two) of [] \<Rightarrow> [] | s # _ \<Rightarrow> s_id s)
            else activeSessionId store_two)\<rparr>)"
    by blast
  then show ?thesis by (simp add: store_two_facts i)
qed

lemma findIndex_Some:
  "findIndex P xs = Some i \<Longrightarrow> i < length xs \<and> P (xs ! i)"
proof (induction xs arbitrary: i)
  case Nil
  then show ?case by simp
next
  case (Cons x xs)
  then show ?case by (cases "P x") (auto simp: nth_Cons')
qed

lemma findIndex_None: "findIndex P xs = None \<longleftrightarrow> (\<forall>x\<in>set xs. \<not> P x)"
  by (induction xs) auto

lemma findIndex_update:
  "findIndex P xs = Some i \<Longrightarrow> P y \<Longrightarrow> findIndex P (xs[i := y]) = Some i"
proof (induction xs arbitrary: i)
  case Nil
  then show ?case by simp
next
  case (Cons x xs)
  then show ?case by (cases "P x") auto
qed

lemma findIndex_append_fresh:
  "\<forall>x\<in>set xs. \<not> P x \<Longrightarrow> findIndex P (xs @ ys) = map_option (\<lambda>k. length xs + k) (findIndex P ys)"
proof (induction xs)
  case Nil
  show ?case by (cases "findIndex P ys") simp_all
next
  case (Cons x xs)
  then show ?case by (cases "findIndex P ys") simp_all
qed

lemma onChunk_present:
  assumes "messages st sid = Some list" "findIndex (\<lambda>m. m_id m = aiMsgId) list = Some i"
  shows "onChunk sid aiMsgId tok (acc, st) =
           (Inr (), acc @ tok,
            st\<lparr>messages := (messages st)(sid \<mapsto> list[i := (list ! i)\<lparr>content_text := acc @ tok\<rparr>])\<rparr>)"
  using assms by (simp add: onChunk_def Let_def)

lemma onChunk_absent:
  assumes "messages st sid = Some list" "findIndex (\<lambda>m. m_id m = aiMsgId) list = None"
  shows "onChunk sid aiMsgId tok (acc, st) = (Inr (), acc @ tok, st)"
  using assms by (simp add: onChunk_def Let_def)

lemma onChunk_onChunk:
  assumes "messages st sid = Some list" "findIndex (\<lambda>m. m_id m = aiMsgId) list = Some i"
  shows "onChunk sid aiMsgId b (snd (onChunk sid aiMsgId a ([], st))) =
           (Inr (), a @ b,
            st\<lparr>messages := (messages st)(sid \<mapsto> list[i := (list ! i)\<lparr>content_text := a @ b\<rparr>])\<rparr>)"
proof -
  let ?l1 = "list[i := (list ! i)\<lparr>content_text := a\<rparr>]"
  let ?st1 = "st\<lparr>messages := (messages st)(sid \<mapsto> ?l1)\<rparr>"
  from findIndex_Some [OF assms(2)] have i: "i < length list" "m_id (list ! i) = aiMsgId" by auto
  have 1: "onChunk sid aiMsgId a ([], st) = (Inr (), a, ?st1)"
    using onChunk_present [OF assms, of a "[]"] by simp
  have m: "messages ?st1 sid = Some ?l1" by simp
  have f: "findIndex (\<lambda>m. m_id m = aiMsgId) ?l1 = Some i"
    by (rule findIndex_update [OF assms(2)]) (simp add: i)
  show ?thesis
    using onChunk_present [OF m f, of b a] i by (simp add: 1)
qed

lemma send_stream_messages:
  assumes "js_trim input \<noteq> []" "length input \<le> MAX_INPUT_CHARS"
    "message_count st (activeSessionId st) < MAX_MSG_PER_SESSION" "useStream st"
  shows "messages (snd (snd (send be now input st))) (activeSessionId st) =
           Some (messages_or_empty st (activeSessionId st) @
                 [userMsg now (activeSessionId st) input, aiMsg now (activeSessionId st)])"
proof -
  from assms(1) have "input \<noteq> []" by (auto simp: js_trim_def)
  with assms show ?thesis by (simp add: send_def Let_def messages_or_empty_def)
qed

lemma send_then_chunks:
  assumes "js_trim input \<noteq> []" "length input \<le> MAX_INPUT_CHARS"
    "message_count st (activeSessionId st) < MAX_MSG_PER_SESSION" "useStream st"
    "now 0 \<noteq> now 2 + 1"
    "\<forall>m\<in>set (messages_or_empty st (activeSessionId st)). m_id m \<noteq> now 2 + 1"
  shows "messages (snd (snd (onChunk (activeSessionId st) (now 2 + 1) b
            (snd (onChunk (activeSessionId st) (now 2 + 1) a
               ([], snd (snd (send be now input st)))))))) (activeSessionId st)
         = Some (messages_or_empty st (activeSessionId st) @
                 [userMsg now (activeSessionId st) input,
                  (aiMsg now (activeSessionId st))\<lparr>content_text := a @ b\<rparr>])"
proof -
  let ?sid = "activeSessionId st"
  let ?old = "messages_or_empty st ?sid"
  let ?list = "?old @ [userMsg now ?sid input, aiMsg now ?sid]"
  let ?st = "snd (snd (send be now input st))"
  have m: "messages ?st ?sid = Some ?list"
    by (rule send_stream_messages [OF assms(1-4)])
  have "findIndex (\<lambda>m. m_id m = now 2 + 1) [userMsg now ?sid input, aiMsg now ?sid] = Some 1"
    using assms(5) by (simp add: userMsg_def aiMsg_def)
  then have f: "findIndex (\<lambda>m. m_id m = now 2 + 1) ?list = Some (length ?old + 1)"
    using findIndex_append_fresh [of ?old "\<lambda>m. m_id m = now 2 + 1"] assms(6) by simp
  have "?list[length ?old + 1 := (?list ! (length ?old + 1))\<lparr>content_text := a @ b\<rparr>]
        = ?old @ [userMsg now ?sid input, (aiMsg now ?sid)\<lparr>content_text := a @ b\<rparr>]"
    by (simp add: list_update_append nth_append)
  then show ?thesis
    using onChunk_onChunk [OF m f, of b a] by simp
qed

text \<open>
  Claim C6, as amended. The token callback of \<open>send\<close> appends the token to its
  accumulator and writes the accumulated text into the first entry of the session's list
  that has the assistant message's id: after the tokens \<open>a\<close> and \<open>b\<close> that entry holds
  \<open>a @ b\<close> and the list is otherwise as before. When no entry has the id the list is left
  as it is: the callback inserts nothing. The empty entry is inserted by \<open>send\<close> itself
  before the stream is opened; with an id that no other entry of the list has, \<open>send\<close>
  followed by the two tokens leaves the old list, the user message, and one assistant
  message with content \<open>a @ b\<close>.
\<close>

theorem onChunk_accumulates:
  "(messages st sid = Some list \<and> findIndex (\<lambda>m. m_id m = mid) list = Some i \<longrightarrow>
      fst (onChunk sid mid a ([], st)) = Inr ()
      \<and> onChunk sid mid b (snd (onChunk sid mid a ([], st))) =
          (Inr (), a @ b,
           st\<lparr>messages := (messages st)(sid \<mapsto> list[i := (list ! i)\<lparr>content_text := a @ b\<rparr>])\<rparr>))
   \<and> (messages st sid = Some list \<and> findIndex (\<lambda>m. m_id m = mid) list = None \<longrightarrow>
        onChunk sid mid a (acc, st) = (Inr (), acc @ a, st))
   \<and> (js_trim input \<noteq> [] \<and> length input \<le> MAX_INPUT_CHARS
        \<and> message_count st (activeSessionId st) < MAX_MSG_PER_SESSION \<and> useStream st
        \<and> now 0 \<noteq> now 2 + 1
        \<and> (\<forall>m\<in>set (messages_or_empty st (activeSessionId st)). m_id m \<noteq> now 2 + 1) \<longrightarrow>
        messages (snd (snd (onChunk (activeSessionId st) (now 2 + 1) b
            (snd (onChunk (activeSessionId st) (now 2 + 1) a
               ([], snd (snd (send be now input st)))))))) (activeSessionId st)
         = Some (messages_or_empty st (activeSessionId st) @
                 [userMsg now (activeSessionId st) input,
                  (aiMsg now (activeSessionId st))\<lparr>content_text := a @ b\<rparr>]))"
proof -
  have 1: "fst (onChunk sid mid a ([], st)) = Inr ()"
    if "messages st sid = Some list" "findIndex (\<lambda>m. m_id m = mid) list = Some i"
    using onChunk_present [OF that, of a "[]"] by simp
  show ?thesis
    using 1 onChunk_onChunk [of st sid list mid i b a] onChunk_absent [of st sid list mid a acc]
      send_then_chunks [of input st now b a be]
    by blast
qed

theorem onChunk_accumulates_witness:
  "messages store_used ''s0'' = Some [message0]
   \<and> findIndex (\<lambda>m. m_id m = 7) [message0] = Some 0
   \<and> onChunk ''s0'' 7 ''b'' (snd (onChunk ''s0'' 7 ''a'' ([], store_used))) =
       (Inr (), ''ab'', store_used\<lparr>messages := (messages store_used)
          (''s0'' \<mapsto> [message0\<lparr>content_text := ''ab''\<rparr>])\<rparr>)
   \<and> findIndex (\<lambda>m. m_id m = 9) [message0] = None
   \<and> onChunk ''s0'' 9 ''a'' ([], store_used) = (Inr (), ''a'', store_used)
   \<and> js_trim ''hello'' \<noteq> [] \<and> length ''hello'' \<le> MAX_INPUT_CHARS
   \<and> message_count store_used (activeSessionId store_used) < MAX_MSG_PER_SESSION
   \<and> useStream store_used
   \<and> messages (snd (snd (onChunk ''s0'' 2001 ''b'' (snd (onChunk ''s0'' 2001 ''a''
          ([], snd (snd (send api_ok (\<lambda>k. 2000) ''hello'' store_used)))))))) ''s0''
       = Some [message0, userMsg (\<lambda>k. 2000) ''s0'' ''hello'',
               (aiMsg (\<lambda>k. 2000) ''s0'')\<lparr>content_text := ''ab''\<rparr>]"
proof -
  have m: "messages store_used ''s0'' = Some [message0]"
    by (simp add: store_used_def)
  have a: "activeSessionId store_used = ''s0''"
    by (simp add: store_used_def store_fresh_def)
  have f7: "findIndex (\<lambda>m. m_id m = 7) [message0] = Some 0"
    by (simp add: message0_def)
  have f9: "findIndex (\<lambda>m. m_id m = 9) [message0] = None"
    by (simp add: message0_def)
  have t: "js_trim ''hello'' \<noteq> []"
    by (simp add: js_trim_def is_ws_def)
  have l: "length ''hello'' \<le> MAX_INPUT_CHARS"
    by (simp add: MAX_INPUT_CHARS_def)
  have c: "message_count store_used (activeSessionId store_used) < MAX_MSG_PER_SESSION"
    by (simp add: message_count_def a m MAX_MSG_PER_SESSION_def)
  have u: "useStream store_used"
    by (simp add: store_used_def store_fresh_def)
  have o: "messages_or_empty store_used ''s0'' = [message0]"
    by (simp add: messages_or_empty_def m)
  have fr: "\<forall>m\<in>set (messages_or_empty store_used (activeSessionId store_used)). m_id m \<noteq> (\<lambda>k. 2000) 2 + 1"
    by (simp add: a o message0_def)
  note T1 = onChunk_accumulates [of store_used "''s0''" "[message0]" 7 0 "''a''" "''b''" "[]"
      "''hello''" "\<lambda>k. 2000" api_ok]
  note T2 = onChunk_accumulates [of store_used "''s0''" "[message0]" 9 0 "''a''" "''b''" "[]"
      "''hello''" "\<lambda>k. 2000" api_ok]
  from T1 m f7 t l c u fr a o
  have A: "onChunk ''s0'' 7 ''b'' (snd (onChunk ''s0'' 7 ''a'' ([], store_used))) =
       (Inr (), ''ab'', store_used\<lparr>messages := (messages store_used)
          (''s0'' \<mapsto> [message0\<lparr>content_text := ''ab''\<rparr>])\<rparr>)"
    and C: "messages (snd (snd (onChunk ''s0'' 2001 ''b'' (snd (onChunk ''s0'' 2001 ''a''
          ([], snd (snd (send api_ok (\<lambda>k. 2000) ''hello'' store_used)))))))) ''s0''
       = Some [message0, userMsg (\<lambda>k. 2000) ''s0'' ''hello'',
               (aiMsg (\<lambda>k. 2000) ''s0'')\<lparr>content_text := ''ab''\<rparr>]"
    by simp_all
  from T2 m f9 have B: "onChunk ''s0'' 9 ''a'' ([], store_used) = (Inr (), ''a'', store_used)"
    by simp
  from m f7 A f9 B t l c u C show ?thesis by blast
qed

text \<open>
  The claim as first stated (an entry is inserted when the id is not in the list) fails on
  an empty list: after the token the list is still empty.
\<close>

theorem onChunk_accumulates_counterexample:
  "messages store_fresh ''s0'' = Some []
   \<and> messages (snd (snd (onChunk ''s0'' 9 ''a'' ([], store_fresh)))) ''s0'' = Some []"
  by (simp add: store_fresh_def onChunk_def)

lemma createAndActivate_at_limit:
  "length (sessions st) \<ge> MAX_SESSIONS \<Longrightarrow>
   createAndActivate be d st = (Inr (), [Alert (SessionLimit MAX_SESSIONS)], st)"
  by (simp add: createAndActivate_def)

lemma createAndActivate_no_alias:
  "length (sessions st) < MAX_SESSIONS \<Longrightarrow> create_alias d st = [] \<Longrightarrow>
   createAndActivate be d st = (Inr (), [Alert NoModel], st)"
  by (simp add: createAndActivate_def)

lemma createAndActivate_created:
  assumes "length (sessions st) < MAX_SESSIONS" "create_alias d st \<noteq> []"
    "api_createSession be (create_request d st) = Inr s"
  shows "createAndActivate be d st =
           (Inr (), [Call (CreateSession (create_request d st))],
            setMessages (s_id s) (Some [])
              (sync_config s (st\<lparr>sessions := s # sessions st, activeSessionId := s_id s\<rparr>)))"
  using assms by (simp add: createAndActivate_def)

lemma createAndActivate_failed:
  assumes "length (sessions st) < MAX_SESSIONS" "create_alias d st \<noteq> []"
    "api_createSession be (create_request d st) = Inl e"
  shows "createAndActivate be d st = (Inl e, [Call (CreateSession (create_request d st))], st)"
  using assms by (simp add: createAndActivate_def)

lemma createAndActivate_rejected:
  assumes "fst (createAndActivate be d st) = Inl e"
  shows "api_createSession be (create_request d st) = Inl e"
  using assms
  by (auto simp: createAndActivate_def Let_def split: if_splits sum.splits)

lemma ensureActiveSession_used:
  assumes "activeSessionId st \<noteq> []" "message_count st (activeSessionId st) > 0"
  shows "ensureActiveSession be d st = createAndActivate be d st"
  using assms by (simp add: ensureActiveSession_def Let_def split: list.split)

lemma ensureActiveSession_unused:
  assumes "sessions st \<noteq> []" "activeSessionId st \<noteq> []" "message_count st (activeSessionId st) = 0"
  shows "ensureActiveSession be d st = tryPatchConfig be (activeSessionId st) d st"
  using assms by (simp add: ensureActiveSession_def Let_def split: list.split)

text \<open>The store after a session was created: every field the creation writes.\<close>

lemma created_store:
  "activeSessionId (setMessages (s_id s) (Some [])
      (sync_config s (st\<lparr>sessions := s # sessions st, activeSessionId := s_id s\<rparr>))) = s_id s"
  "sessions (setMessages (s_id s) (Some [])
      (sync_config s (st\<lparr>sessions := s # sessions st, activeSessionId := s_id s\<rparr>))) = s # sessions st"
  "messages (setMessages (s_id s) (Some [])
      (sync_config s (st\<lparr>sessions := s # sessions st, activeSessionId := s_id s\<rparr>)))
     = (messages st)(s_id s \<mapsto> [])"
  "modelAlias (setMessages (s_id s) (Some [])
      (sync_config s (st\<lparr>sessions := s # sessions st, activeSessionId := s_id s\<rparr>))) = model_alias s"
  "useRag (setMessages (s_id s) (Some [])
      (sync_config s (st\<lparr>sessions := s # sessions st, activeSessionId := s_id s\<rparr>))) = use_rag s"
  "ragCorpusIds (setMessages (s_id s) (Some [])
      (sync_config s (st\<lparr>sessions := s # sessions st, activeSessionId := s_id s\<rparr>)))
     = (case rag_corpus_ids s of None \<Rightarrow> [] | Some l \<Rightarrow> l)"
  "useStream (setMessages (s_id s) (Some [])
      (sync_config s (st\<lparr>sessions := s # sessions st, activeSessionId := s_id s\<rparr>)))
     = (case meta_stream s of None \<Rightarrow> useStream st | Some b \<Rightarrow> b)"
  by (simp_all add: setMessages_def sync_config_def split: option.split)

text \<open>
  Claim C3, as amended. When the active session has at least one message, the session
  list is below its maximum, a model alias is at hand, the create call succeeds and the
  backend gives the created session an id other than the active one, reconciling
  resolves after that one create call, made with the desired configuration, and yields a
  new active id distinct from the previous one: the id of the created session, which is
  put in front of the list with an empty message list, while the snapshot (model alias,
  retrieval flag, corpus set, streaming flag) takes the configuration the backend
  returned.
\<close>

theorem ensureActiveSession_creates:
  assumes "activeSessionId st \<noteq> []"
    and "message_count st (activeSessionId st) > 0"
    and "length (sessions st) < MAX_SESSIONS"
    and "create_alias d st \<noteq> []"
    and "api_createSession be (create_request d st) = Inr s"
    and "s_id s \<noteq> activeSessionId st"
  shows "fst (ensureActiveSession be d st) = Inr ()
    \<and> fst (snd (ensureActiveSession be d st)) = [Call (CreateSession (create_request d st))]
    \<and> activeSessionId (snd (snd (ensureActiveSession be d st))) \<noteq> activeSessionId st
    \<and> activeSessionId (snd (snd (ensureActiveSession be d st))) = s_id s
    \<and> sessions (snd (snd (ensureActiveSession be d st))) = s # sessions st
    \<and> messages (snd (snd (ensureActiveSession be d st))) = (messages st)(s_id s \<mapsto> [])
    \<and> modelAlias (snd (snd (ensureActiveSession be d st))) = model_alias s
    \<and> useRag (snd (snd (ensureActiveSession be d st))) = use_rag s
    \<and> ragCorpusIds (snd (snd (ensureActiveSession be d st)))
        = (case rag_corpus_ids s of None \<Rightarrow> [] | Some l \<Rightarrow> l)
    \<and> useStream (snd (snd (ensureActiveSession be d st)))
        = (case meta_stream s of None \<Rightarrow> useStream st | Some b \<Rightarrow> b)
    \<and> (d_modelAlias d = Some a \<and> a \<noteq> [] \<and> d_useRag d = Some r
         \<and> d_ragCorpusIds d = Some c \<and> d_useStream d = Some u \<longrightarrow>
        create_request d st =
          \<lparr>cb_model_alias = a, cb_use_rag = r, cb_rag_corpus_ids = c, cb_meta_stream = u\<rparr>)"
proof -
  have "ensureActiveSession be d st =
          (Inr (), [Call (CreateSession (create_request d st))],
           setMessages (s_id s) (Some [])
             (sync_config s (st\<lparr>sessions := s # sessions st, activeSessionId := s_id s\<rparr>)))"
    using ensureActiveSession_used [OF assms(1,2)] createAndActivate_created [OF assms(3-5)]
    by simp
  then show ?thesis
    using assms(6) by (simp add: created_store create_request_def create_alias_def)
qed

lemma store_used_facts:
  "activeSessionId store_used = ''s0''"
  "messages store_used ''s0'' = Some [message0]"
  "messages store_used = [''s0'' \<mapsto> [message0]]"
  "sessions store_used = [session0]"
  "modelAlias store_used = ''m1''"
  "useStream store_used"
  by (simp_all add: store_used_def store_fresh_def)

lemma store_fresh_facts:
  "activeSessionId store_fresh = ''s0''"
  "messages store_fresh ''s0'' = Some []"
  "messages store_fresh = [''s0'' \<mapsto> []]"
  "sessions store_fresh = [session0]"
  "modelAlias store_fresh = ''m1''"
  "useRag store_fresh = False"
  "ragCorpusIds store_fresh = []"
  "useStream store_fresh"
  by (simp_all add: store_fresh_def)

lemma store_full_facts:
  "activeSessionId store_full = ''s0''"
  "messages store_full ''s0'' = Some [message0]"
  "length (sessions store_full) = 100"
  by (simp_all add: store_full_def store_used_def store_fresh_def)

lemma store_no_model_facts:
  "activeSessionId store_no_model = ''s0''"
  "messages store_no_model ''s0'' = Some [message0]"
  "sessions store_no_model = [session0]"
  "modelAlias store_no_model = []"
  "models store_no_model = []"
  by (simp_all add: store_no_model_def store_used_def store_fresh_def)

lemma want_m2_facts:
  "d_modelAlias want_m2 = Some ''m2''" "d_useRag want_m2 = Some False"
  "d_ragCorpusIds want_m2 = Some []" "d_useStream want_m2 = Some True"
  by (simp_all add: want_m2_def)

lemma session1_facts:
  "s_id session1 = ''s1''" "model_alias session1 = ''m2''" "use_rag session1 = False"
  "rag_corpus_ids session1 = Some []" "meta_stream session1 = Some True"
  by (simp_all add: session1_def)

theorem ensureActiveSession_creates_witness:
  "activeSessionId store_used \<noteq> []
   \<and> message_count store_used (activeSessionId store_used) > 0
   \<and> length (sessions store_used) < MAX_SESSIONS
   \<and> create_alias want_m2 store_used \<noteq> []
   \<and> api_createSession api_ok (create_request want_m2 store_used) = Inr session1
   \<and> s_id session1 \<noteq> activeSessionId store_used
   \<and> fst (ensureActiveSession api_ok want_m2 store_used) = Inr ()
   \<and> fst (snd (ensureActiveSession api_ok want_m2 store_used))
       = [Call (CreateSession \<lparr>cb_model_alias = ''m2'', cb_use_rag = False,
                                cb_rag_corpus_ids = [], cb_meta_stream = True\<rparr>)]
   \<and> activeSessionId (snd (snd (ensureActiveSession api_ok want_m2 store_used))) = ''s1''
   \<and> sessions (snd (snd (ensureActiveSession api_ok want_m2 store_used))) = [session1, session0]
   \<and> messages (snd (snd (ensureActiveSession api_ok want_m2 store_used)))
       = [''s0'' \<mapsto> [message0], ''s1'' \<mapsto> []]
   \<and> modelAlias (snd (snd (ensureActiveSession api_ok want_m2 store_used))) = ''m2''
   \<and> useRag (snd (snd (ensureActiveSession api_ok want_m2 store_used))) = False
   \<and> ragCorpusIds (snd (snd (ensureActiveSession api_ok want_m2 store_used))) = []
   \<and> useStream (snd (snd (ensureActiveSession api_ok want_m2 store_used))) = True"
proof -
  have h1: "activeSessionId store_used \<noteq> []" by (simp add: store_used_facts)
  have h2: "message_count store_used (activeSessionId store_used) > 0"
    by (simp add: message_count_def store_used_facts)
  have h3: "length (sessions store_used) < MAX_SESSIONS"
    by (simp add: store_used_facts MAX_SESSIONS_def)
  have h4: "create_alias want_m2 store_used \<noteq> []"
    by (simp add: create_alias_def want_m2_facts)
  have h5: "api_createSession api_ok (create_request want_m2 store_used) = Inr session1"
    by (simp add: api_ok_def)
  have h6: "s_id session1 \<noteq> activeSessionId store_used"
    by (simp add: session1_facts store_used_facts)
  from ensureActiveSession_creates [OF h1 h2 h3 h4 h5 h6, of "''m2''" False "[]" True]
    h1 h2 h3 h4 h5 h6
  show ?thesis by (simp add: want_m2_facts store_used_facts session1_facts)
qed

text \<open>
  The claim as first stated (a new active id in every state whose active session has a
  message) fails in four ways, each with the active session \<open>s0\<close> holding a message and
  staying active: the session list is full and the warning is shown; no model alias is
  at hand and the warning is shown; the create call fails and the call rejects; the
  backend answers the create call with the id that is active already.
\<close>

theorem ensureActiveSession_creates_counterexample:
  "message_count store_full (activeSessionId store_full) > 0
   \<and> ensureActiveSession api_ok want_m2 store_full
       = (Inr (), [Alert (SessionLimit MAX_SESSIONS)], store_full)
   \<and> message_count store_no_model (activeSessionId store_no_model) > 0
   \<and> ensureActiveSession api_ok want_nothing store_no_model
       = (Inr (), [Alert NoModel], store_no_model)
   \<and> message_count store_used (activeSessionId store_used) > 0
   \<and> fst (ensureActiveSession api_down want_m2 store_used) = Inl (HttpError 500)
   \<and> snd (snd (ensureActiveSession api_down want_m2 store_used)) = store_used
   \<and> activeSessionId (snd (snd (ensureActiveSession api_same want_m2 store_used)))
       = activeSessionId store_used"
proof -
  have f1: "activeSessionId store_full \<noteq> []" by (simp add: store_full_facts)
  have f2: "message_count store_full (activeSessionId store_full) > 0"
    by (simp add: message_count_def store_full_facts)
  have f3: "length (sessions store_full) \<ge> MAX_SESSIONS"
    by (simp add: store_full_facts MAX_SESSIONS_def)
  have A: "ensureActiveSession api_ok want_m2 store_full
       = (Inr (), [Alert (SessionLimit MAX_SESSIONS)], store_full)"
    using ensureActiveSession_used [OF f1 f2] createAndActivate_at_limit [OF f3] by simp
  have n1: "activeSessionId store_no_model \<noteq> []" by (simp add: store_no_model_facts)
  have n2: "message_count store_no_model (activeSessionId store_no_model) > 0"
    by (simp add: message_count_def store_no_model_facts)
  have n3: "length (sessions store_no_model) < MAX_SESSIONS"
    by (simp add: store_no_model_facts MAX_SESSIONS_def)
  have n4: "create_alias want_nothing store_no_model = []"
    by (simp add: create_alias_def want_nothing_def store_no_model_facts)
  have B: "ensureActiveSession api_ok want_nothing store_no_model
       = (Inr (), [Alert NoModel], store_no_model)"
    using ensureActiveSession_used [OF n1 n2] createAndActivate_no_alias [OF n3 n4] by simp
  have u1: "activeSessionId store_used \<noteq> []" by (simp add: store_used_facts)
  have u2: "message_count store_used (activeSessionId store_used) > 0"
    by (simp add: message_count_def store_used_facts)
  have u3: "length (sessions store_used) < MAX_SESSIONS"
    by (simp add: store_used_facts MAX_SESSIONS_def)
  have u4: "create_alias want_m2 store_used \<noteq> []"
    by (simp add: create_alias_def want_m2_facts)
  have u5: "api_createSession api_down (create_request want_m2 store_used) = Inl (HttpError 500)"
    by (simp add: api_down_def)
  have u6: "api_createSession api_same (create_request want_m2 store_used) = Inr session0"
    by (simp add: api_same_def api_ok_def)
  have C: "fst (ensureActiveSession api_down want_m2 store_used) = Inl (HttpError 500)
     \<and> snd (snd (ensureActiveSession api_down want_m2 store_used)) = store_used"
    using ensureActiveSession_used [OF u1 u2] createAndActivate_failed [OF u3 u4 u5] by simp
  have "activeSessionId (snd (snd (ensureActiveSession api_same want_m2 store_used)))
       = s_id session0"
    using ensureActiveSession_used [OF u1 u2] createAndActivate_created [OF u3 u4 u6]
    by (simp add: created_store)
  then have D: "activeSessionId (snd (snd (ensureActiveSession api_same want_m2 store_used)))
       = activeSessionId store_used"
    by (simp add: store_used_facts session0_def)
  from f2 A n2 B u2 C D show ?thesis by blast
qed

lemma tryPatchConfig_patched:
  assumes "api_patchSession be i (patch_request d) = Inr upd"
  shows "tryPatchConfig be i d st =
           (Inr (), [Call (PatchSession i (patch_request d))],
            sync_config upd
              (st\<lparr>sessions :=
                   (case findIndex (\<lambda>s. s_id s = i) (sessions st) of
                      None \<Rightarrow> sessions st
                    | Some idx \<Rightarrow> (sessions st)[idx := upd])\<rparr>))"
  using assms by (simp add: tryPatchConfig_def Let_def)

lemma tryPatchConfig_refused:
  assumes "api_patchSession be i (patch_request d) = Inl e"
  shows "tryPatchConfig be i d st =
           (case createAndActivate be (fallback_desired d st) st of
              (r, effs, st') \<Rightarrow> (r, Call (PatchSession i (patch_request d)) # effs, st'))"
  using assms by (simp add: tryPatchConfig_def Let_def)

lemma tryPatchConfig_error:
  assumes "fst (tryPatchConfig be i d st) = Inl e'"
  shows "(\<exists>e. api_patchSession be i (patch_request d) = Inl e)
         \<and> api_createSession be (create_request (fallback_desired d st) st) = Inl e'"
proof (cases "api_patchSession be i (patch_request d)")
  case (Inl e)
  from assms tryPatchConfig_refused [OF Inl, of st]
  have "fst (createAndActivate be (fallback_desired d st) st) = Inl e'"
    by (simp split: prod.splits)
  from createAndActivate_rejected [OF this] Inl show ?thesis by simp
next
  case (Inr upd)
  from assms tryPatchConfig_patched [OF Inr, of st] show ?thesis by simp
qed

text \<open>The store after a patch was accepted: every field the write-back touches.\<close>

lemma patched_store:
  "activeSessionId (sync_config upd (st\<lparr>sessions := l\<rparr>)) = activeSessionId st"
  "sessions (sync_config upd (st\<lparr>sessions := l\<rparr>)) = l"
  "messages (sync_config upd (st\<lparr>sessions := l\<rparr>)) = messages st"
  "modelAlias (sync_config upd (st\<lparr>sessions := l\<rparr>)) = model_alias upd"
  "useRag (sync_config upd (st\<lparr>sessions := l\<rparr>)) = use_rag upd"
  "ragCorpusIds (sync_config upd (st\<lparr>sessions := l\<rparr>))
     = (case rag_corpus_ids upd of None \<Rightarrow> [] | Some c \<Rightarrow> c)"
  "useStream (sync_config upd (st\<lparr>sessions := l\<rparr>))
     = (case meta_stream upd of None \<Rightarrow> useStream st | Some b \<Rightarrow> b)"
  by (simp_all add: sync_config_def split: option.split)

lemma fallback_request:
  "cb_use_rag (create_request (fallback_desired d st) st)
     = (case d_useRag d of None \<Rightarrow> useRag st | Some b \<Rightarrow> b)"
  "cb_rag_corpus_ids (create_request (fallback_desired d st) st)
     = (case d_ragCorpusIds d of None \<Rightarrow> ragCorpusIds st | Some c \<Rightarrow> c)"
  "cb_meta_stream (create_request (fallback_desired d st) st)
     = (case d_useStream d of None \<Rightarrow> useStream st | Some b \<Rightarrow> b)"
  "d_modelAlias d = Some a \<Longrightarrow> a \<noteq> [] \<Longrightarrow>
   cb_model_alias (create_request (fallback_desired d st) st) = a"
  by (simp_all add: create_request_def fallback_desired_def create_alias_def)

text \<open>
  Claim C2, as amended. With a session list that is not empty and an active session that
  has no message, reconciling first sends the patch, carrying the fields that were asked
  for. If the patch succeeds, the call resolves, the active id is the same, the entry of
  the session in the list is replaced by the session the backend returned, and the
  snapshot (model alias, retrieval flag, corpus set, streaming flag) takes its
  configuration. If the patch is refused, the refusal itself is never passed on: the call
  goes on as the creation branch with the desired configuration completed from the
  snapshot, and when the list is below its maximum, an alias is at hand and the create
  call succeeds, the created session becomes the active one, in front of the list, with
  an empty message list and its configuration in the snapshot. The call rejects only when
  the patch was refused and the create call of the fallback failed as well, and then with
  the error of the create call.
\<close>

theorem ensureActiveSession_patches:
  assumes "sessions st \<noteq> []"
    and "activeSessionId st \<noteq> []"
    and "message_count st (activeSessionId st) = 0"
  shows "(api_patchSession be (activeSessionId st) (patch_request d) = Inr upd \<longrightarrow>
            fst (ensureActiveSession be d st) = Inr ()
            \<and> fst (snd (ensureActiveSession be d st))
                = [Call (PatchSession (activeSessionId st) (patch_request d))]
            \<and> activeSessionId (snd (snd (ensureActiveSession be d st))) = activeSessionId st
            \<and> sessions (snd (snd (ensureActiveSession be d st)))
                = (case findIndex (\<lambda>s. s_id s = activeSessionId st) (sessions st) of
                     None \<Rightarrow> sessions st
                   | Some idx \<Rightarrow> (sessions st)[idx := upd])
            \<and> messages (snd (snd (ensureActiveSession be d st))) = messages st
            \<and> modelAlias (snd (snd (ensureActiveSession be d st))) = model_alias upd
            \<and> useRag (snd (snd (ensureActiveSession be d st))) = use_rag upd
            \<and> ragCorpusIds (snd (snd (ensureActiveSession be d st)))
                = (case rag_corpus_ids upd of None \<Rightarrow> [] | Some c \<Rightarrow> c)
            \<and> useStream (snd (snd (ensureActiveSession be d st)))
                = (case meta_stream upd of None \<Rightarrow> useStream st | Some b \<Rightarrow> b))
    \<and> (api_patchSession be (activeSessionId st) (patch_request d) = Inl e \<longrightarrow>
            ensureActiveSession be d st =
              (case createAndActivate be (fallback_desired d st) st of
                 (r, effs, st') \<Rightarrow>
                   (r, Call (PatchSession (activeSessionId st) (patch_request d)) # effs, st')))
    \<and> (api_patchSession be (activeSessionId st) (patch_request d) = Inl e
         \<and> length (sessions st) < MAX_SESSIONS
         \<and> create_alias (fallback_desired d st) st \<noteq> []
         \<and> api_createSession be (create_request (fallback_desired d st) st) = Inr s \<longrightarrow>
            fst (ensureActiveSession be d st) = Inr ()
            \<and> fst (snd (ensureActiveSession be d st))
                = [Call (PatchSession (activeSessionId st) (patch_request d)),
                   Call (CreateSession (create_request (fallback_desired d st) st))]
            \<and> activeSessionId (snd (snd (ensureActiveSession be d st))) = s_id s
            \<and> sessions (snd (snd (ensureActiveSession be d st))) = s # sessions st
            \<and> messages (snd (snd (ensureActiveSession be d st))) = (messages st)(s_id s \<mapsto> [])
            \<and> modelAlias (snd (snd (ensureActiveSession be d st))) = model_alias s
            \<and> useRag (snd (snd (ensureActiveSession be d st))) = use_rag s
            \<and> ragCorpusIds (snd (snd (ensureActiveSession be d st)))
                = (case rag_corpus_ids s of None \<Rightarrow> [] | Some c \<Rightarrow> c)
            \<and> useStream (snd (snd (ensureActiveSession be d st)))
                = (case meta_stream s of None \<Rightarrow> useStream st | Some b \<Rightarrow> b))
    \<and> (fst (ensureActiveSession be d st) = Inl e' \<longrightarrow>
            (\<exists>e. api_patchSession be (activeSessionId st) (patch_request d) = Inl e)
            \<and> api_createSession be (create_request (fallback_desired d st) st) = Inl e')
    \<and> patch_request d =
         \<lparr>pb_model_alias = d_modelAlias d, pb_use_rag = d_useRag d,
          pb_rag_corpus_ids = d_ragCorpusIds d, pb_meta_stream = d_useStream d\<rparr>
    \<and> cb_use_rag (create_request (fallback_desired d st) st)
         = (case d_useRag d of None \<Rightarrow> useRag st | Some b \<Rightarrow> b)
    \<and> cb_rag_corpus_ids (create_request (fallback_desired d st) st)
         = (case d_ragCorpusIds d of None \<Rightarrow> ragCorpusIds st | Some c \<Rightarrow> c)
    \<and> cb_meta_stream (create_request (fallback_desired d st) st)
         = (case d_useStream d of None \<Rightarrow> useStream st | Some b \<Rightarrow> b)
    \<and> (d_modelAlias d = Some a \<and> a \<noteq> [] \<longrightarrow>
          cb_model_alias (create_request (fallback_desired d st) st) = a)"
proof -
  note E = ensureActiveSession_unused [OF assms, of be d]
  let ?st' = "snd (snd (ensureActiveSession be d st))"
  have A: "fst (ensureActiveSession be d st) = Inr ()
            \<and> fst (snd (ensureActiveSession be d st))
                = [Call (PatchSession (activeSessionId st) (patch_request d))]
            \<and> activeSessionId ?st' = activeSessionId st
            \<and> sessions ?st'
                = (case findIndex (\<lambda>s. s_id s = activeSessionId st) (sessions st) of
                     None \<Rightarrow> sessions st
                   | Some idx \<Rightarrow> (sessions st)[idx := upd])
            \<and> messages ?st' = messages st
            \<and> modelAlias ?st' = model_alias upd
            \<and> useRag ?st' = use_rag upd
            \<and> ragCorpusIds ?st' = (case rag_corpus_ids upd of None \<Rightarrow> [] | Some c \<Rightarrow> c)
            \<and> useStream ?st' = (case meta_stream upd of None \<Rightarrow> useStream st | Some b \<Rightarrow> b)"
    if "api_patchSession be (activeSessionId st) (patch_request d) = Inr upd"
    using tryPatchConfig_patched [OF that, of st] by (simp add: E patched_store)
  have B: "ensureActiveSession be d st =
              (case createAndActivate be (fallback_desired d st) st of
                 (r, effs, st') \<Rightarrow>
                   (r, Call (PatchSession (activeSessionId st) (patch_request d)) # effs, st'))"
    if "api_patchSession be (activeSessionId st) (patch_request d) = Inl e"
    using tryPatchConfig_refused [OF that, of st] by (simp add: E)
  have C: "fst (ensureActiveSession be d st) = Inr ()
            \<and> fst (snd (ensureActiveSession be d st))
                = [Call (PatchSession (activeSessionId st) (patch_request d)),
                   Call (CreateSession (create_request (fallback_desired d st) st))]
            \<and> activeSessionId ?st' = s_id s
            \<and> sessions ?st' = s # sessions st
            \<and> messages ?st' = (messages st)(s_id s \<mapsto> [])
            \<and> modelAlias ?st' = model_alias s
            \<and> useRag ?st' = use_rag s
            \<and> ragCorpusIds ?st' = (case rag_corpus_ids s of None \<Rightarrow> [] | Some c \<Rightarrow> c)
            \<and> useStream ?st' = (case meta_stream s of None \<Rightarrow> useStream st | Some b \<Rightarrow> b)"
    if "api_patchSession be (activeSessionId st) (patch_request d) = Inl e"
      "length (sessions st) < MAX_SESSIONS"
      "create_alias (fallback_desired d st) st \<noteq> []"
      "api_createSession be (create_request (fallback_desired d st) st) = Inr s"
    using B [OF that(1)] createAndActivate_created [OF that(2-4)]
    by (simp add: created_store)
  have D: "(\<exists>e. api_patchSession be (activeSessionId st) (patch_request d) = Inl e)
            \<and> api_createSession be (create_request (fallback_desired d st) st) = Inl e'"
    if "fst (ensureActiveSession be d st) = Inl e'"
    using that tryPatchConfig_error [of be "activeSessionId st" d st e'] by (simp add: E)
  have P: "patch_request d =
         \<lparr>pb_model_alias = d_modelAlias d, pb_use_rag = d_useRag d,
          pb_rag_corpus_ids = d_ragCorpusIds d, pb_meta_stream = d_useStream d\<rparr>"
    by (simp add: patch_request_def)
  from A B C D P fallback_request show ?thesis by blast
qed

lemma api_facts:
  "api_patchSession api_ok i b = Inr (session0\<lparr>model_alias := ''m2''\<rparr>)"
  "api_createSession api_ok c = Inr session1"
  "api_patchSession api_no_patch i b = Inl (HttpError 405)"
  "api_createSession api_no_patch c = Inr session1"
  "api_patchSession api_down i b = Inl (HttpError 409)"
  "api_createSession api_down c = Inl (HttpError 500)"
  by (simp_all add: api_ok_def api_no_patch_def api_down_def)

lemma ensureActiveSession_down:
  "fst (ensureActiveSession api_down want_m2 store_fresh) = Inl (HttpError 500)"
proof -
  have "sessions store_fresh \<noteq> []" "activeSessionId store_fresh \<noteq> []"
    "message_count store_fresh (activeSessionId store_fresh) = 0"
    by (simp_all add: store_fresh_facts message_count_def)
  from ensureActiveSession_unused [OF this]
  show ?thesis
    by (simp add: tryPatchConfig_def createAndActivate_def api_facts store_fresh_facts
          MAX_SESSIONS_def create_alias_def fallback_desired_def want_m2_facts Let_def)
qed

theorem ensureActiveSession_patches_witness:
  "sessions store_fresh \<noteq> [] \<and> activeSessionId store_fresh \<noteq> []
   \<and> message_count store_fresh (activeSessionId store_fresh) = 0
   \<and> api_patchSession api_ok (activeSessionId store_fresh) (patch_request want_m2)
       = Inr (session0\<lparr>model_alias := ''m2''\<rparr>)
   \<and> fst (ensureActiveSession api_ok want_m2 store_fresh) = Inr ()
   \<and> activeSessionId (snd (snd (ensureActiveSession api_ok want_m2 store_fresh))) = ''s0''
   \<and> sessions (snd (snd (ensureActiveSession api_ok want_m2 store_fresh)))
       = [session0\<lparr>model_alias := ''m2''\<rparr>]
   \<and> messages (snd (snd (ensureActiveSession api_ok want_m2 store_fresh))) = [''s0'' \<mapsto> []]
   \<and> modelAlias (snd (snd (ensureActiveSession api_ok want_m2 store_fresh))) = ''m2''
   \<and> useRag (snd (snd (ensureActiveSession api_ok want_m2 store_fresh))) = False
   \<and> ragCorpusIds (snd (snd (ensureActiveSession api_ok want_m2 store_fresh))) = []
   \<and> useStream (snd (snd (ensureActiveSession api_ok want_m2 store_fresh))) = True
   \<and> api_patchSession api_no_patch (activeSessionId store_fresh) (patch_request want_m2)
       = Inl (HttpError 405)
   \<and> length (sessions store_fresh) < MAX_SESSIONS
   \<and> create_alias (fallback_desired want_m2 store_fresh) store_fresh \<noteq> []
   \<and> api_createSession api_no_patch (create_request (fallback_desired want_m2 store_fresh) store_fresh)
       = Inr session1
   \<and> fst (ensureActiveSession api_no_patch want_m2 store_fresh) = Inr ()
   \<and> activeSessionId (snd (snd (ensureActiveSession api_no_patch want_m2 store_fresh))) = ''s1''
   \<and> sessions (snd (snd (ensureActiveSession api_no_patch want_m2 store_fresh)))
       = [session1, session0]
   \<and> modelAlias (snd (snd (ensureActiveSession api_no_patch want_m2 store_fresh))) = ''m2''
   \<and> fst (ensureActiveSession api_down want_m2 store_fresh) = Inl (HttpError 500)
   \<and> api_createSession api_down (create_request (fallback_desired want_m2 store_fresh) store_fresh)
       = Inl (HttpError 500)
   \<and> d_modelAlias want_m2 = Some ''m2'' \<and> ''m2'' \<noteq> []
   \<and> cb_model_alias (create_request (fallback_desired want_m2 store_fresh) store_fresh) = ''m2''"
proof -
  have h1: "sessions store_fresh \<noteq> []" and h2: "activeSessionId store_fresh \<noteq> []"
    and h3: "message_count store_fresh (activeSessionId store_fresh) = 0"
    by (simp_all add: store_fresh_facts message_count_def)
  note T = ensureActiveSession_patches [OF h1 h2 h3]
  let ?upd = "session0\<lparr>model_alias := ''m2''\<rparr>"
  have p1: "api_patchSession api_ok (activeSessionId store_fresh) (patch_request want_m2) = Inr ?upd"
    by (simp add: api_facts)
  have p2: "api_patchSession api_no_patch (activeSessionId store_fresh) (patch_request want_m2)
       = Inl (HttpError 405)"
    by (simp add: api_facts)
  have l: "length (sessions store_fresh) < MAX_SESSIONS"
    by (simp add: store_fresh_facts MAX_SESSIONS_def)
  have a: "create_alias (fallback_desired want_m2 store_fresh) store_fresh \<noteq> []"
    by (simp add: create_alias_def fallback_desired_def want_m2_facts)
  have c: "api_createSession api_no_patch (create_request (fallback_desired want_m2 store_fresh) store_fresh)
       = Inr session1"
    by (simp add: api_facts)
  have m: "d_modelAlias want_m2 = Some ''m2''" "''m2'' \<noteq> []"
    by (simp_all add: want_m2_facts)
  have u: "model_alias ?upd = ''m2''" "use_rag ?upd = False" "rag_corpus_ids ?upd = Some []"
    "meta_stream ?upd = Some True"
    by (simp_all add: session0_def)
  have A: "fst (ensureActiveSession api_ok want_m2 store_fresh) = Inr ()
     \<and> activeSessionId (snd (snd (ensureActiveSession api_ok want_m2 store_fresh))) = ''s0''
     \<and> sessions (snd (snd (ensureActiveSession api_ok want_m2 store_fresh))) = [?upd]
     \<and> messages (snd (snd (ensureActiveSession api_ok want_m2 store_fresh))) = [''s0'' \<mapsto> []]
     \<and> modelAlias (snd (snd (ensureActiveSession api_ok want_m2 store_fresh))) = ''m2''
     \<and> useRag (snd (snd (ensureActiveSession api_ok want_m2 store_fresh))) = False
     \<and> ragCorpusIds (snd (snd (ensureActiveSession api_ok want_m2 store_fresh))) = []
     \<and> useStream (snd (snd (ensureActiveSession api_ok want_m2 store_fresh))) = True"
  proof -
    from T [where be = api_ok and d = want_m2 and upd = ?upd] p1
    have "fst (ensureActiveSession api_ok want_m2 store_fresh) = Inr ()
      \<and> activeSessionId (snd (snd (ensureActiveSession api_ok want_m2 store_fresh)))
          = activeSessionId store_fresh
      \<and> sessions (snd (snd (ensureActiveSession api_ok want_m2 store_fresh)))
          = (case findIndex (\<lambda>s. s_id s = activeSessionId store_fresh) (sessions store_fresh) of
               None \<Rightarrow> sessions store_fresh
             | Some idx \<Rightarrow> (sessions store_fresh)[idx := ?upd])
      \<and> messages (snd (snd (ensureActiveSession api_ok want_m2 store_fresh))) = messages store_fresh
      \<and> modelAlias (snd (snd (ensureActiveSession api_ok want_m2 store_fresh))) = model_alias ?upd
      \<and> useRag (snd (snd (ensureActiveSession api_ok want_m2 store_fresh))) = use_rag ?upd
      \<and> ragCorpusIds (snd (snd (ensureActiveSession api_ok want_m2 store_fresh)))
          = (case rag_corpus_ids ?upd of None \<Rightarrow> [] | Some c \<Rightarrow> c)
      \<and> useStream (snd (snd (ensureActiveSession api_ok want_m2 store_fresh)))
          = (case meta_stream ?upd of None \<Rightarrow> useStream store_fresh | Some b \<Rightarrow> b)"
      by blast
    moreover have "s_id session0 = ''s0''" by (simp add: session0_def)
    ultimately show ?thesis by (simp add: u store_fresh_facts)
  qed
  have B: "fst (ensureActiveSession api_no_patch want_m2 store_fresh) = Inr ()
     \<and> activeSessionId (snd (snd (ensureActiveSession api_no_patch want_m2 store_fresh))) = ''s1''
     \<and> sessions (snd (snd (ensureActiveSession api_no_patch want_m2 store_fresh)))
         = [session1, session0]
     \<and> modelAlias (snd (snd (ensureActiveSession api_no_patch want_m2 store_fresh))) = ''m2''"
  proof -
    from T [where be = api_no_patch and d = want_m2 and e = "HttpError 405" and s = session1]
      p2 l a c
    have "fst (ensureActiveSession api_no_patch want_m2 store_fresh) = Inr ()
      \<and> activeSessionId (snd (snd (ensureActiveSession api_no_patch want_m2 store_fresh)))
          = s_id session1
      \<and> sessions (snd (snd (ensureActiveSession api_no_patch want_m2 store_fresh)))
          = session1 # sessions store_fresh
      \<and> modelAlias (snd (snd (ensureActiveSession api_no_patch want_m2 store_fresh)))
          = model_alias session1"
      by blast
    then show ?thesis by (simp add: session1_facts store_fresh_facts)
  qed
  have C: "api_createSession api_down (create_request (fallback_desired want_m2 store_fresh) store_fresh)
       = Inl (HttpError 500)"
    using T [where be = api_down and d = want_m2 and e' = "HttpError 500"] ensureActiveSession_down
    by blast
  have D: "cb_model_alias (create_request (fallback_desired want_m2 store_fresh) store_fresh) = ''m2''"
    using T [where be = api_down and d = want_m2 and a = "''m2''"] m by blast
  from h1 h2 h3 p1 A p2 l a c B ensureActiveSession_down C m D show ?thesis by blast
qed

text \<open>
  The claim as first stated (never an error visible to the caller) fails when the backend
  refuses the patch and then fails the create call of the fallback: the call rejects.
\<close>

theorem ensureActiveSession_patches_counterexample:
  "message_count store_fresh (activeSessionId store_fresh) = 0
   \<and> d_modelAlias want_m2 \<noteq> Some (modelAlias store_fresh)
   \<and> fst (ensureActiveSession api_down want_m2 store_fresh) = Inl (HttpError 500)"
  using ensureActiveSession_down
  by (simp add: store_fresh_facts message_count_def want_m2_facts)

end
